theory Spec2Isabelle
  imports Main
begin

section \<open>The analyser stage of mtriage (src/lib/common/analyser.py)\<close>

text \<open>
  The class \<open>Analyser\<close> drives a user-written analysis over the elements of a storage:
  \<open>start_analysing\<close> runs \<open>pre_analyse\<close>, reads the input elements, attempts each
  element up to five times, runs \<open>post_analyse\<close> and finally writes a metadata record
  unless the run is marked \<open>errored\<close>.

  The embedding passes the analyser object explicitly. What the Python does to the
  outside world (calls of the user's hooks, storage reads and writes, log lines) is
  appended to a \<open>trace\<close> carried in the state, in the order in which it happens.
  An exception is a value: every function that can raise returns an \<open>outcome\<close>, which
  holds the state reached in both cases.
\<close>

subsection \<open>Data\<close>

text \<open>\<open>LocalElement\<close> (lib/common/etypes.py): the analyser only reads \<open>element.query\<close>.\<close>

record LocalElement =
  el_id :: string
  query :: string

text \<open>
  The exceptions of lib/common/exceptions.py that the analyser raises or catches. Every
  other subclass of Python's \<open>Exception\<close> is an \<open>OtherException\<close>.
\<close>

datatype exn =
    ElementShouldSkipError string
  | ElementShouldRetryError string
  | InvalidAnalyserElements string
  | OtherException string

text \<open>\<open>str(e)\<close>\<close>

fun str :: "exn \<Rightarrow> string" where
  "str (ElementShouldSkipError m) = m"
| "str (ElementShouldRetryError m) = m"
| "str (InvalidAnalyserElements m) = m"
| "str (OtherException m) = m"

text \<open>
  The storage object \<open>self.disk\<close>: the attribute \<open>delete_local_on_write\<close> that the
  analyser assigns, and whatever else the backend keeps.
\<close>

record 'd Storage =
  delete_local_on_write :: bool
  backend :: 'd

text \<open>
  What is observable of a run. \<open>WriteElement src dest el flag r\<close> is a call
  \<open>self.disk.write_element(dest, el)\<close> made for the input element \<open>src\<close> (\<open>None\<close> in the
  post phase) while \<open>delete_local_on_write\<close> was \<open>flag\<close>, with result \<open>r\<close>.
\<close>

datatype event =
    Log string
  | ErrorLog string LocalElement
  | PrintTraceback exn
  | AnalyseElement LocalElement
  | WriteElement "LocalElement option" string LocalElement bool "exn + bool"
  | SetDestQ string
  | ReadElements "string list"
  | WriteMeta string string
  | FlushLogs

text \<open>
  The analyser object. \<open>stage_name\<close> is \<open>self.name\<close>, \<open>elements_in\<close> is
  \<open>self.config["elements_in"]\<close>, \<open>dev\<close> is the value of \<open>self.is_dev()\<close>, \<open>user\<close> is the
  state of the concrete analyser that the hooks read and change.
\<close>

record ('u, 'd) Analyser =
  stage_name :: string
  elements_in :: "string list"
  in_parallel :: bool
  dev :: bool
  errored :: bool
  dest_q :: string
  user :: 'u
  disk :: "'d Storage"
  trace :: "event list"

datatype 'a outcome = Returned 'a | Raised exn 'a

text \<open>
  The parts of the program that are not in analyser.py and that the analyser calls: the
  three hooks of the concrete analyser, the operations of the storage backend, and the
  worker pool of \<open>MTModule.phase\<close> that runs \<open>analyse\<close> when it is given a generator.
  They are parameters of the embedding. A hook or a storage operation may change its
  state and may raise. \<open>run_pool\<close> gets the body of \<open>analyse\<close> and the elements; nothing is
  assumed about it, and the properties of whole runs below are stated for serial runs.
  The log lines that the decorator \<open>MTModule.phase\<close> adds around a phase are not part of
  the trace.
\<close>

record ('u, 'd) env =
  pre_analyse :: "'u \<Rightarrow> exn option \<times> 'u"
  analyse_element :: "LocalElement \<Rightarrow> 'u \<Rightarrow> (exn + LocalElement option) \<times> 'u"
  post_analyse :: "LocalElement list \<Rightarrow> 'u \<Rightarrow> (exn + LocalElement option) \<times> 'u"
  read_elements :: "string list \<Rightarrow> 'd Storage \<Rightarrow> (exn + LocalElement list) \<times> 'd Storage"
  read_query :: "string \<Rightarrow> string \<times> string list"
  write_element :: "string \<Rightarrow> LocalElement \<Rightarrow> 'd Storage \<Rightarrow> (exn + bool) \<times> 'd Storage"
  run_pool :: "(LocalElement list \<Rightarrow> ('u, 'd) Analyser \<Rightarrow> ('u, 'd) Analyser outcome)
                 \<Rightarrow> LocalElement list \<Rightarrow> ('u, 'd) Analyser \<Rightarrow> ('u, 'd) Analyser outcome"

subsection \<open>Logging and the destination query\<close>

definition emit :: "event \<Rightarrow> ('u, 'd) Analyser \<Rightarrow> ('u, 'd) Analyser" where
  "emit ev s = s\<lparr>trace := trace s @ [ev]\<rparr>"

text \<open>\<open>self.logger\<close>, \<open>self.error_logger\<close>, \<open>self.flush_logs\<close> of MTModule record a line.\<close>

definition logger :: "string \<Rightarrow> ('u, 'd) Analyser \<Rightarrow> ('u, 'd) Analyser" where
  "logger msg s = emit (Log msg) s"

definition error_logger :: "string \<Rightarrow> LocalElement \<Rightarrow> ('u, 'd) Analyser \<Rightarrow> ('u, 'd) Analyser" where
  "error_logger msg element s = emit (ErrorLog msg element) s"

definition flush_logs :: "('u, 'd) Analyser \<Rightarrow> ('u, 'd) Analyser" where
  "flush_logs s = emit FlushLogs s"

text \<open>
  \<open>get_dest_q\<close> and \<open>set_dest_q\<close>: with \<open>in_parallel\<close> the attribute is a shared cell and
  the value is its \<open>.value\<close>, otherwise the attribute itself. Both are the field \<open>dest_q\<close>.
\<close>

definition get_dest_q :: "('u, 'd) Analyser \<Rightarrow> string" where
  "get_dest_q s = (if in_parallel s then dest_q s else dest_q s)"

definition set_dest_q :: "string \<Rightarrow> ('u, 'd) Analyser \<Rightarrow> ('u, 'd) Analyser" where
  "set_dest_q v s =
     (if in_parallel s then emit (SetDestQ v) (s\<lparr>dest_q := v\<rparr>)
      else emit (SetDestQ v) (s\<lparr>dest_q := v\<rparr>))"

subsection \<open>Attempting one element\<close>

text \<open>
  The \<open>try\<close> block of \<open>__attempt_analyse\<close>: the exception that leaves it, if any, and the
  state at that point.
  \<^verbatim>\<open>
      new_element = self.analyse_element(element, self.config)
      if new_element is None:
          return
      success = self.disk.write_element(self.get_dest_q(), new_element)
      if not success:
          raise ElementShouldRetryError("Unsuccessful storage")
  \<close>
\<close>

definition attempt_body ::
  "('u, 'd) env \<Rightarrow> LocalElement \<Rightarrow> ('u, 'd) Analyser \<Rightarrow> exn option \<times> ('u, 'd) Analyser" where
  "attempt_body E element s =
     (case analyse_element E element (user s) of (r, u) \<Rightarrow>
        let s1 = emit (AnalyseElement element) (s\<lparr>user := u\<rparr>) in
        (case r of
           Inl ex \<Rightarrow> (Some ex, s1)
         | Inr None \<Rightarrow> (None, s1)
         | Inr (Some new_element) \<Rightarrow>
             (case write_element E (get_dest_q s1) new_element (disk s1) of (w, d) \<Rightarrow>
                let s2 = emit (WriteElement (Some element) (get_dest_q s1) new_element
                                 (delete_local_on_write (disk s1)) w) (s1\<lparr>disk := d\<rparr>) in
                (case w of
                   Inl ex \<Rightarrow> (Some ex, s2)
                 | Inr success \<Rightarrow>
                     if \<not> success then (Some (ElementShouldRetryError ''Unsuccessful storage''), s2)
                     else (None, s2)))))"

text \<open>
  \<open>__attempt_analyse(attempts, element)\<close>: the \<open>except\<close> clauses in the order of the
  source, the recursive call with one attempt less in the second.
\<close>

function attempt_analyse ::
  "('u, 'd) env \<Rightarrow> int \<Rightarrow> LocalElement \<Rightarrow> ('u, 'd) Analyser \<Rightarrow> ('u, 'd) Analyser outcome" where
  "attempt_analyse E attempts element s =
     (case attempt_body E element s of
        (None, s1) \<Rightarrow> Returned s1
      | (Some (ElementShouldSkipError m), s1) \<Rightarrow> Returned (error_logger m element s1)
      | (Some (ElementShouldRetryError m), s1) \<Rightarrow>
          (let s2 = error_logger m element s1 in
           if attempts > 1 then attempt_analyse E (attempts - 1) element s2
           else Returned
                  ((error_logger ''failed after maximum retries - skipping element'' element s2)
                     \<lparr>errored := True\<rparr>))
      | (Some e, s1) \<Rightarrow>
          if dev s1 then Raised e s1
          else Returned
                 (emit (PrintTraceback e) (error_logger (str e @ '': skipping element'') element s1)))"
  by pat_completeness auto
termination
  by (relation "measure (\<lambda>(E, attempts, element, s). nat attempts)") auto

declare attempt_analyse.simps [simp del]

subsection \<open>The main phase\<close>

text \<open>
  The body of \<open>analyse\<close>, a loop over the elements:
  \<^verbatim>\<open>
      for element in elements:
          og_query = super(type(self.disk), self.disk).read_query(element.query)
          self.set_dest_q(f"{og_query[0]}/{self.name}")
          self.__attempt_analyse(5, element)
          self.disk.delete_local_on_write = False
  \<close>
\<close>

fun analyse ::
  "('u, 'd) env \<Rightarrow> LocalElement list \<Rightarrow> ('u, 'd) Analyser \<Rightarrow> ('u, 'd) Analyser outcome" where
  "analyse E [] s = Returned s"
| "analyse E (element # elements) s =
     (let og_query = read_query E (query element);
          s1 = set_dest_q (fst og_query @ ''/'' @ stage_name s) s
      in case attempt_analyse E 5 element s1 of
           Raised e s2 \<Rightarrow> Raised e s2
         | Returned s2 \<Rightarrow>
             analyse E elements (s2\<lparr>disk := (disk s2)\<lparr>delete_local_on_write := False\<rparr>\<rparr>))"

text \<open>\<open>get_selector\<close>: the selector names of all input queries, one after the other.\<close>

fun get_selector_loop :: "('u, 'd) env \<Rightarrow> string list \<Rightarrow> string \<Rightarrow> string" where
  "get_selector_loop E [] sel = sel"
| "get_selector_loop E (q # qs) sel = get_selector_loop E qs (sel @ fst (read_query E q))"

definition get_selector :: "('u, 'd) env \<Rightarrow> ('u, 'd) Analyser \<Rightarrow> string" where
  "get_selector E s = get_selector_loop E (elements_in s) ''''"

subsection \<open>The three phases and the entry point\<close>

text \<open>\<open>__pre_analyse\<close>\<close>

definition do_pre_analyse ::
  "('u, 'd) env \<Rightarrow> ('u, 'd) Analyser \<Rightarrow> ('u, 'd) Analyser outcome" where
  "do_pre_analyse E s =
     (case pre_analyse E (user s) of
        (Some ex, u) \<Rightarrow> Raised ex (s\<lparr>user := u\<rparr>)
      | (None, u) \<Rightarrow> Returned (s\<lparr>user := u\<rparr>))"

text \<open>
  \<open>__analyse\<close>: any exception of \<open>read_elements\<close> becomes \<open>InvalidAnalyserElements\<close>, and so
  does an empty result. A generator goes to the worker pool, a list to \<open>analyse\<close> itself.
\<close>

definition do_analyse ::
  "('u, 'd) env \<Rightarrow> ('u, 'd) Analyser \<Rightarrow> ('u, 'd) Analyser outcome" where
  "do_analyse E s =
     (case read_elements E (elements_in s) (disk s) of (r, d) \<Rightarrow>
        let s1 = emit (ReadElements (elements_in s)) (s\<lparr>disk := d\<rparr>) in
        (case r of
           Inl ex \<Rightarrow>
             Raised (InvalidAnalyserElements
               ''The 'elements_in' you specified does not exist on the storage specified.'') s1
         | Inr elements \<Rightarrow>
             if length elements = 0 then
               Raised (InvalidAnalyserElements
                 ''No elements could be found at the location you tried to select or passed in.'') s1
             else if in_parallel s1 then run_pool E (analyse E) elements s1
             else analyse E elements s1))"

text \<open>
  The loop of \<open>__post_analyse\<close> that writes the aggregate element under every input
  selector and collects the results.
\<close>

fun post_write_loop ::
  "('u, 'd) env \<Rightarrow> string list \<Rightarrow> LocalElement \<Rightarrow> bool list \<Rightarrow> ('u, 'd) Analyser
     \<Rightarrow> (exn + bool list) \<times> ('u, 'd) Analyser" where
  "post_write_loop E [] outel successes s = (Inr successes, s)"
| "post_write_loop E (q # qs) outel successes s =
     (let selname = fst (read_query E q);
          dest = selname @ ''/'' @ stage_name s
      in case write_element E dest outel (disk s) of (w, d) \<Rightarrow>
           let s1 = emit (WriteElement None dest outel (delete_local_on_write (disk s)) w)
                      (s\<lparr>disk := d\<rparr>) in
           (case w of
              Inl ex \<Rightarrow> (Inl ex, s1)
            | Inr success \<Rightarrow> post_write_loop E qs outel (successes @ [success]) s1))"

text \<open>\<open>__post_analyse\<close>\<close>

definition do_post_analyse ::
  "('u, 'd) env \<Rightarrow> ('u, 'd) Analyser \<Rightarrow> ('u, 'd) Analyser outcome" where
  "do_post_analyse E s =
     (case read_elements E [get_dest_q s] (disk s) of (r, d) \<Rightarrow>
        let s1 = emit (ReadElements [get_dest_q s]) (s\<lparr>disk := d\<rparr>) in
        (case r of
           Inl ex \<Rightarrow> Raised ex s1
         | Inr analysed_els \<Rightarrow>
             (case post_analyse E analysed_els (user s1) of (p, u) \<Rightarrow>
                let s2 = s1\<lparr>user := u\<rparr> in
                (case p of
                   Inl ex \<Rightarrow> Raised ex s2
                 | Inr None \<Rightarrow> Returned s2
                 | Inr (Some outel) \<Rightarrow>
                     (case post_write_loop E (elements_in s2) outel [] s2 of
                        (Inl ex, s3) \<Rightarrow> Raised ex s3
                      | (Inr successes, s3) \<Rightarrow>
                          if \<not> list_all (\<lambda>b. b) successes then
                            Raised (ElementShouldRetryError
                              ''Some instances of the final element produced via 'post_analyse' failed to save.'') s3
                          else Returned s3)))))"

text \<open>
  \<open>start_analysing\<close>: the three phases, then the metadata record under
  \<open>get_selector()/name\<close> unless \<open>errored\<close>, then the logs.
\<close>

definition start_analysing ::
  "('u, 'd) env \<Rightarrow> ('u, 'd) Analyser \<Rightarrow> ('u, 'd) Analyser outcome" where
  "start_analysing E s =
     (let s0 = logger (''Running analysis '' @ (if in_parallel s then ''in parallel'' else ''serially'')) s
      in case do_pre_analyse E s0 of
           Raised e s1 \<Rightarrow> Raised e s1
         | Returned s1 \<Rightarrow>
             (case do_analyse E s1 of
                Raised e s2 \<Rightarrow> Raised e s2
              | Returned s2 \<Rightarrow>
                  (case do_post_analyse E s2 of
                     Raised e s3 \<Rightarrow> Raised e s3
                   | Returned s3 \<Rightarrow>
                       (let s4 = (if \<not> errored s3
                                  then emit (WriteMeta (get_selector E s3 @ ''/'' @ stage_name s3)
                                               (stage_name s3)) s3
                                  else s3)
                        in Returned (flush_logs s4)))))"

subsection \<open>Reading a run\<close>

text \<open>The state an outcome holds, whether the call returned or raised.\<close>

fun state_of :: "'a outcome \<Rightarrow> 'a" where
  "state_of (Returned s) = s"
| "state_of (Raised e s) = s"

text \<open>The attributes that no method of the analyser assigns.\<close>

definition same_config :: "('u, 'd) Analyser \<Rightarrow> ('u, 'd) Analyser \<Rightarrow> bool" where
  "same_config s s' \<longleftrightarrow>
     stage_name s' = stage_name s \<and> elements_in s' = elements_in s \<and>
     in_parallel s' = in_parallel s \<and> dev s' = dev s"

text \<open>
  The events that attempting the element \<open>e\<close> under the destination \<open>d\<close> can produce:
  calls of the hook on \<open>e\<close>, error lines about \<open>e\<close>, a printed traceback, and writes made
  for \<open>e\<close> under \<open>d\<close>.
\<close>

fun attempt_event :: "LocalElement \<Rightarrow> string \<Rightarrow> event \<Rightarrow> bool" where
  "attempt_event e d (AnalyseElement x) = (x = e)"
| "attempt_event e d (ErrorLog m x) = (x = e)"
| "attempt_event e d (PrintTraceback ex) = True"
| "attempt_event e d (WriteElement src dest el flag r) = (src = Some e \<and> dest = d)"
| "attempt_event e d _ = False"

text \<open>A write that stored its element: \<open>write_element\<close> returned true.\<close>

fun persists :: "event \<Rightarrow> bool" where
  "persists (WriteElement src dest el flag r) = (r = Inr True)"
| "persists _ = False"

text \<open>
  The events that the loop of \<open>__post_analyse\<close> can produce: writes of the aggregate
  element, made for no input element, under one of the given destinations.
\<close>

fun post_event :: "string list \<Rightarrow> event \<Rightarrow> bool" where
  "post_event dests (WriteElement src dest el flag r) = (src = None \<and> dest \<in> set dests)"
| "post_event dests _ = False"

text \<open>Whether a call returned normally.\<close>

fun returned :: "'a outcome \<Rightarrow> bool" where
  "returned (Returned s) = True"
| "returned (Raised e s) = False"

text \<open>The destinations assigned to \<open>dest_q\<close>, in order.\<close>

fun dest_assignments :: "event list \<Rightarrow> string list" where
  "dest_assignments [] = []"
| "dest_assignments (SetDestQ d # evs) = d # dest_assignments evs"
| "dest_assignments (ev # evs) = dest_assignments evs"

text \<open>For every write, the input element it was made for and its destination.\<close>

fun write_dests :: "event list \<Rightarrow> (LocalElement option \<times> string) list" where
  "write_dests [] = []"
| "write_dests (WriteElement src dest el flag r # evs) = (src, dest) # write_dests evs"
| "write_dests (ev # evs) = write_dests evs"

text \<open>For every write, the value of \<open>delete_local_on_write\<close> at that moment.\<close>

fun write_flags :: "event list \<Rightarrow> bool list" where
  "write_flags [] = []"
| "write_flags (WriteElement src dest el flag r # evs) = flag # write_flags evs"
| "write_flags (ev # evs) = write_flags evs"

text \<open>The paths of the metadata records written.\<close>

fun meta_paths :: "event list \<Rightarrow> string list" where
  "meta_paths [] = []"
| "meta_paths (WriteMeta p n # evs) = p # meta_paths evs"
| "meta_paths (ev # evs) = meta_paths evs"

text \<open>The query lists given to \<open>read_elements\<close>.\<close>

fun read_queries :: "event list \<Rightarrow> string list list" where
  "read_queries [] = []"
| "read_queries (ReadElements qs # evs) = qs # read_queries evs"
| "read_queries (ev # evs) = read_queries evs"

text \<open>
  The state in which the next attempt of an element begins, when the attempt made in the
  state \<open>t\<close> ends with an exception: the \<open>try\<close> block has run and the reason is logged
  (lines 187-190 for the should-retry error).
\<close>

definition next_attempt ::
  "('u, 'd) env \<Rightarrow> LocalElement \<Rightarrow> ('u, 'd) Analyser \<Rightarrow> ('u, 'd) Analyser" where
  "next_attempt E element t =
     (case attempt_body E element t of
        (Some ex, t1) \<Rightarrow> error_logger (str ex) element t1
      | (None, t1) \<Rightarrow> t1)"

text \<open>
  For every write, the input element it was made for, its destination, the element
  written and the result.
\<close>

fun write_calls ::
  "event list \<Rightarrow> (LocalElement option \<times> string \<times> LocalElement \<times> (exn + bool)) list" where
  "write_calls [] = []"
| "write_calls (WriteElement src dest e flag r # evs) = (src, dest, e, r) # write_calls evs"
| "write_calls (ev # evs) = write_calls evs"

subsection \<open>A small storage and analyser to run the model on\<close>

text \<open>
  Modelled from the spec: \<open>Storage.read_query\<close> (lib/common/storage.py is not among the
  sources). A query is a path whose first segment names the selector and whose remaining
  segments name the stages applied since; decomposing it yields the selector name and the
  remainder.
\<close>

fun split_slash :: "string \<Rightarrow> string \<Rightarrow> string list" where
  "split_slash acc [] = [acc]"
| "split_slash acc (c # cs) =
     (if c = CHR ''/'' then acc # split_slash [] cs else split_slash (acc @ [c]) cs)"

definition read_query_spec :: "string \<Rightarrow> string \<times> string list" where
  "read_query_spec q = (hd (split_slash [] q), tl (split_slash [] q))"

text \<open>
  A storage that keeps a list of elements with the query each lives under. Reading fails
  on the query \<open>corrupt\<close>; writing fails, by returning false, for an element named \<open>bad\<close>.
\<close>

definition demo_read_elements ::
  "string list \<Rightarrow> (string \<times> LocalElement) list Storage
     \<Rightarrow> (exn + LocalElement list) \<times> (string \<times> LocalElement) list Storage" where
  "demo_read_elements qs st =
     (if ''corrupt'' \<in> set qs then (Inl (OtherException ''storage corrupted''), st)
      else (Inr (map (\<lambda>(q, e). e\<lparr>query := q\<rparr>) (filter (\<lambda>(q, e). q \<in> set qs) (backend st))), st))"

definition demo_write_element ::
  "string \<Rightarrow> LocalElement \<Rightarrow> (string \<times> LocalElement) list Storage
     \<Rightarrow> (exn + bool) \<times> (string \<times> LocalElement) list Storage" where
  "demo_write_element dest e st =
     (if el_id e = ''bad'' then (Inr False, st)
      else (Inr True, st\<lparr>backend := backend st @ [(dest, e)]\<rparr>))"

text \<open>
  An analyser whose state counts the calls of \<open>analyse_element\<close>. What it does with an
  element depends on the element's name: \<open>skip\<close> and \<open>retry\<close> raise the two classified
  errors, \<open>flaky\<close> asks for a retry during the first two calls, \<open>boom\<close> raises another
  exception, \<open>none\<close> produces nothing, \<open>unwritable\<close> produces an element the storage
  refuses, every other element produces a copy of itself.
\<close>

definition demo_analyse_element ::
  "LocalElement \<Rightarrow> nat \<Rightarrow> (exn + LocalElement option) \<times> nat" where
  "demo_analyse_element e u =
     (if el_id e = ''skip'' then (Inl (ElementShouldSkipError ''not relevant''), Suc u)
      else if el_id e = ''retry'' then (Inl (ElementShouldRetryError ''busy''), Suc u)
      else if el_id e = ''flaky'' \<and> u < 2 then (Inl (ElementShouldRetryError ''busy''), Suc u)
      else if el_id e = ''boom'' then (Inl (OtherException ''boom''), Suc u)
      else if el_id e = ''none'' then (Inr None, Suc u)
      else if el_id e = ''unwritable'' then (Inr (Some (e\<lparr>el_id := ''bad''\<rparr>)), Suc u)
      else (Inr (Some e), Suc u))"

definition demo_env :: "(nat, (string \<times> LocalElement) list) env" where
  "demo_env =
     \<lparr>pre_analyse = (\<lambda>u. (None, u)),
      analyse_element = demo_analyse_element,
      post_analyse = (\<lambda>els u. (Inr None, u)),
      read_elements = demo_read_elements,
      read_query = read_query_spec,
      write_element = demo_write_element,
      run_pool = (\<lambda>body els s. body els s)\<rparr>"

definition el :: "string \<Rightarrow> string \<Rightarrow> LocalElement" where
  "el n q = \<lparr>el_id = n, query = q\<rparr>"

text \<open>
  A serial analyser named \<open>an\<close> with the given input queries and development flag, on a
  storage that holds the given elements and deletes local copies on write.
\<close>

definition demo_analyser ::
  "string list \<Rightarrow> bool \<Rightarrow> (string \<times> LocalElement) list
     \<Rightarrow> (nat, (string \<times> LocalElement) list) Analyser" where
  "demo_analyser qs d stored =
     \<lparr>stage_name = ''an'', elements_in = qs, in_parallel = False, dev = d, errored = False,
      dest_q = [], user = 0,
      disk = \<lparr>delete_local_on_write = True, backend = stored\<rparr>, trace = []\<rparr>"

text \<open>
  The same analyser with an element named \<open>stubborn\<close>, whose hook asks for a retry as
  long as it has been called fewer than seven times, and the same analyser with a
  \<open>post_analyse\<close> that produces an aggregate element named \<open>all\<close>.
\<close>

definition demo_env_stubborn :: "(nat, (string \<times> LocalElement) list) env" where
  "demo_env_stubborn =
     demo_env\<lparr>analyse_element :=
       (\<lambda>e u. if el_id e = ''stubborn'' \<and> u < 7
               then (Inl (ElementShouldRetryError ''busy''), Suc u)
               else demo_analyse_element e u)\<rparr>"

definition demo_env_aggregate :: "(nat, (string \<times> LocalElement) list) env" where
  "demo_env_aggregate = demo_env\<lparr>post_analyse := (\<lambda>els u. (Inr (Some (el ''all'' [])), u))\<rparr>"

section \<open>Properties\<close>

lemmas log_defs = emit_def logger_def error_logger_def flush_logs_def

lemmas demo_defs =
  demo_env_def demo_env_stubborn_def demo_env_aggregate_def demo_analyser_def demo_read_elements_def demo_write_element_def
  demo_analyse_element_def el_def read_query_spec_def

lemmas run_defs =
  start_analysing_def do_pre_analyse_def do_analyse_def do_post_analyse_def
  attempt_analyse.simps attempt_body_def set_dest_q_def get_dest_q_def Let_def

subsection \<open>One attempt\<close>

text \<open>How \<open>__attempt_analyse\<close> goes on, by what left the \<open>try\<close> block.\<close>

lemma attempt_returned:
  "attempt_body E element s = (None, s1) \<Longrightarrow> attempt_analyse E attempts element s = Returned s1"
  by (simp add: attempt_analyse.simps [of E attempts element s])

lemma attempt_skip:
  "attempt_body E element s = (Some (ElementShouldSkipError m), s1) \<Longrightarrow>
   attempt_analyse E attempts element s = Returned (error_logger m element s1)"
  by (simp add: attempt_analyse.simps [of E attempts element s])

lemma attempt_retry:
  "attempt_body E element s = (Some (ElementShouldRetryError m), s1) \<Longrightarrow> 1 < attempts \<Longrightarrow>
   attempt_analyse E attempts element s =
     attempt_analyse E (attempts - 1) element (error_logger m element s1)"
  by (simp add: attempt_analyse.simps [of E attempts element s])

lemma attempt_exhausted:
  "attempt_body E element s = (Some (ElementShouldRetryError m), s1) \<Longrightarrow> \<not> 1 < attempts \<Longrightarrow>
   attempt_analyse E attempts element s =
     Returned ((error_logger ''failed after maximum retries - skipping element'' element
                  (error_logger m element s1))\<lparr>errored := True\<rparr>)"
  by (simp add: attempt_analyse.simps [of E attempts element s])

lemma attempt_other:
  assumes "attempt_body E element s = (Some ex, s1)"
    and "\<forall>m. ex \<noteq> ElementShouldSkipError m" and "\<forall>m. ex \<noteq> ElementShouldRetryError m"
  shows "attempt_analyse E attempts element s =
           (if dev s1 then Raised ex s1
            else Returned (emit (PrintTraceback ex)
                             (error_logger (str ex @ '': skipping element'') element s1)))"
  using assms by (cases ex) (simp_all add: attempt_analyse.simps [of E attempts element s])

text \<open>What the \<open>try\<close> block leaves alone, and what it appends to the trace.\<close>

lemma attempt_body_frame:
  assumes "attempt_body E e s = (r, s1)"
  shows "same_config s s1 \<and> dest_q s1 = dest_q s \<and> errored s1 = errored s \<and>
         (\<exists>evs. trace s1 = trace s @ evs \<and> list_all (attempt_event e (dest_q s)) evs)"
  using assms
  by (auto simp: attempt_body_def emit_def same_config_def get_dest_q_def Let_def
           split: prod.splits sum.splits option.splits if_splits)

lemma attempt_body_raised:
  assumes "fst (analyse_element E element (user s)) = Inl ex"
  shows "attempt_body E element s =
           (Some ex, s\<lparr>user := snd (analyse_element E element (user s)),
                       trace := trace s @ [AnalyseElement element]\<rparr>)"
  using assms
  by (cases "analyse_element E element (user s)") (simp add: attempt_body_def emit_def)

text \<open>
  The whole of \<open>__attempt_analyse\<close>, however it ends: the configuration and \<open>dest_q\<close> are
  as before, \<open>errored\<close> is not reset, and the trace grows by events of this element under
  the destination that was current at the start.
\<close>

lemma attempt_analyse_frame:
  "same_config s (state_of (attempt_analyse E n e s)) \<and>
   dest_q (state_of (attempt_analyse E n e s)) = dest_q s \<and>
   (errored s \<longrightarrow> errored (state_of (attempt_analyse E n e s))) \<and>
   (\<exists>evs. trace (state_of (attempt_analyse E n e s)) = trace s @ evs \<and>
          list_all (attempt_event e (dest_q s)) evs)"
proof (induction E n e s rule: attempt_analyse.induct)
  case (1 E attempts element s)
  let ?goal = "\<lambda>t. same_config s t \<and> dest_q t = dest_q s \<and> (errored s \<longrightarrow> errored t) \<and>
     (\<exists>evs. trace t = trace s @ evs \<and> list_all (attempt_event element (dest_q s)) evs)"
  obtain r s1 where b: "attempt_body E element s = (r, s1)"
    by (cases "attempt_body E element s")
  note f = attempt_body_frame [OF b]
  from f obtain evs1 where e1: "trace s1 = trace s @ evs1"
    "list_all (attempt_event element (dest_q s)) evs1" by blast
  have logged: "?goal (error_logger m element s1)" for m
    using f e1 by (simp add: error_logger_def emit_def same_config_def)
  show ?case
  proof (cases r)
    case None
    with b f show ?thesis by (simp add: attempt_returned)
  next
    case (Some ex)
    show ?thesis
    proof (cases ex)
      case (ElementShouldSkipError m)
      with Some b logged [of m] show ?thesis by (simp add: attempt_skip)
    next
      case (ElementShouldRetryError m)
      define s2 where "s2 = error_logger m element s1"
      have b': "attempt_body E element s = (Some (ElementShouldRetryError m), s1)"
        using b Some ElementShouldRetryError by simp
      have s2: "?goal s2" using logged [of m] by (simp add: s2_def)
      then obtain evs2 where e2: "trace s2 = trace s @ evs2"
        "list_all (attempt_event element (dest_q s)) evs2" by blast
      show ?thesis
      proof (cases "1 < attempts")
        case True
        let ?t = "state_of (attempt_analyse E (attempts - 1) element s2)"
        have ih: "same_config s2 ?t \<and> dest_q ?t = dest_q s2 \<and> (errored s2 \<longrightarrow> errored ?t) \<and>
            (\<exists>evs. trace ?t = trace s2 @ evs \<and> list_all (attempt_event element (dest_q s2)) evs)"
          using "1.IH" [OF b [symmetric] Some ElementShouldRetryError s2_def True] .
        then obtain evs3 where e3: "trace ?t = trace s2 @ evs3"
          "list_all (attempt_event element (dest_q s2)) evs3" by blast
        have "trace ?t = trace s @ (evs2 @ evs3)" using e2 e3 by simp
        moreover have "list_all (attempt_event element (dest_q s)) (evs2 @ evs3)"
          using e2 e3 s2 by simp
        ultimately have "\<exists>evs. trace ?t = trace s @ evs \<and>
            list_all (attempt_event element (dest_q s)) evs" by blast
        moreover have "same_config s ?t" "dest_q ?t = dest_q s" "errored s \<longrightarrow> errored ?t"
          using ih s2 by (auto simp: same_config_def)
        ultimately have "?goal ?t" by blast
        then show ?thesis using attempt_retry [OF b' True] by (simp add: s2_def)
      next
        case False
        have "?goal (error_logger ''failed after maximum retries - skipping element'' element s2
                       \<lparr>errored := True\<rparr>)"
          using s2 e2 by (simp add: error_logger_def emit_def same_config_def)
        then show ?thesis using attempt_exhausted [OF b' False] by (simp add: s2_def)
      qed
    next
      case (InvalidAnalyserElements m)
      then have "attempt_analyse E attempts element s =
           (if dev s1 then Raised ex s1
            else Returned (emit (PrintTraceback ex)
                             (error_logger (str ex @ '': skipping element'') element s1)))"
        using b Some by (intro attempt_other) simp_all
      with f e1 show ?thesis by (simp add: error_logger_def emit_def same_config_def)
    next
      case (OtherException m)
      then have "attempt_analyse E attempts element s =
           (if dev s1 then Raised ex s1
            else Returned (emit (PrintTraceback ex)
                             (error_logger (str ex @ '': skipping element'') element s1)))"
        using b Some by (intro attempt_other) simp_all
      with f e1 show ?thesis by (simp add: error_logger_def emit_def same_config_def)
    qed
  qed
qed

subsection \<open>Skipped elements\<close>

text \<open>
  C5. When the hook raises the should-skip error for an element, the attempt ends there,
  whatever number of attempts was left: the call returns normally, and the state differs
  from the one before only by the hook's own state and by two trace events, the call of
  the hook and the error line with the reason. So the hook is not called again, nothing
  is written, and \<open>errored\<close> keeps the value it had.
\<close>

theorem skip_is_terminal:
  assumes "fst (analyse_element E element (user s)) = Inl (ElementShouldSkipError m)"
  shows "attempt_analyse E attempts element s =
           Returned (s\<lparr>user := snd (analyse_element E element (user s)),
                       trace := trace s @ [AnalyseElement element, ErrorLog m element]\<rparr>)"
  using attempt_skip [OF attempt_body_raised [OF assms]]
  by (simp add: error_logger_def emit_def)

theorem skip_is_terminal_witness:
  "fst (analyse_element demo_env (el ''skip'' ''selA'') (user (demo_analyser [''selA''] False [])))
     = Inl (ElementShouldSkipError ''not relevant'') \<and>
   attempt_analyse demo_env 5 (el ''skip'' ''selA'') (demo_analyser [''selA''] False []) =
     Returned ((demo_analyser [''selA''] False [])
       \<lparr>user := 1,
        trace := [AnalyseElement (el ''skip'' ''selA''),
                  ErrorLog ''not relevant'' (el ''skip'' ''selA'')]\<rparr>) \<and>
   \<not> errored (state_of (attempt_analyse demo_env 5 (el ''skip'' ''selA'')
                (demo_analyser [''selA''] False [])))"
proof -
  have h: "fst (analyse_element demo_env (el ''skip'' ''selA'')
                  (user (demo_analyser [''selA''] False [])))
             = Inl (ElementShouldSkipError ''not relevant'')"
    by (simp add: demo_defs)
  show ?thesis
    using h skip_is_terminal [OF h, of 5] by (simp add: demo_defs)
qed

lemma set_dest_q_fields:
  "user (set_dest_q v s) = user s"
  "disk (set_dest_q v s) = disk s"
  "errored (set_dest_q v s) = errored s"
  "dest_q (set_dest_q v s) = v"
  "trace (set_dest_q v s) = trace s @ [SetDestQ v]"
  "stage_name (set_dest_q v s) = stage_name s"
  "elements_in (set_dest_q v s) = elements_in s"
  "in_parallel (set_dest_q v s) = in_parallel s"
  "dev (set_dest_q v s) = dev s"
  by (simp_all add: set_dest_q_def emit_def)

subsection \<open>Unclassified exceptions\<close>

text \<open>
  C8. When the hook raises an exception that is neither the should-skip nor the
  should-retry error: in development mode \<open>__attempt_analyse\<close> raises it again at once,
  and so does the loop of \<open>analyse\<close>, which leaves the remaining elements untouched;
  otherwise the message and the traceback are recorded, the call returns, the loop goes
  on with the remaining elements, and \<open>errored\<close> keeps its value (the states below
  differ from \<open>s\<close> in \<open>dest_q\<close>, \<open>user\<close>, \<open>disk\<close> and \<open>trace\<close> only).
\<close>

theorem unclassified_exception:
  assumes "fst (analyse_element E element (user s)) = Inl ex"
    and "\<forall>m. ex \<noteq> ElementShouldSkipError m"
    and "\<forall>m. ex \<noteq> ElementShouldRetryError m"
  shows "attempt_analyse E attempts element s =
           (if dev s then
              Raised ex (s\<lparr>user := snd (analyse_element E element (user s)),
                           trace := trace s @ [AnalyseElement element]\<rparr>)
            else
              Returned (s\<lparr>user := snd (analyse_element E element (user s)),
                          trace := trace s @ [AnalyseElement element,
                                              ErrorLog (str ex @ '': skipping element'') element,
                                              PrintTraceback ex]\<rparr>)) \<and>
         analyse E (element # rest) s =
           (if dev s then
              Raised ex (s\<lparr>dest_q := fst (read_query E (query element)) @ ''/'' @ stage_name s,
                           user := snd (analyse_element E element (user s)),
                           trace := trace s @
                             [SetDestQ (fst (read_query E (query element)) @ ''/'' @ stage_name s),
                              AnalyseElement element]\<rparr>)
            else
              analyse E rest
                (s\<lparr>dest_q := fst (read_query E (query element)) @ ''/'' @ stage_name s,
                   user := snd (analyse_element E element (user s)),
                   trace := trace s @
                     [SetDestQ (fst (read_query E (query element)) @ ''/'' @ stage_name s),
                      AnalyseElement element,
                      ErrorLog (str ex @ '': skipping element'') element,
                      PrintTraceback ex],
                   disk := (disk s)\<lparr>delete_local_on_write := False\<rparr>\<rparr>))"
proof -
  have one: "attempt_analyse E n element t =
           (if dev t then
              Raised ex (t\<lparr>user := snd (analyse_element E element (user t)),
                           trace := trace t @ [AnalyseElement element]\<rparr>)
            else
              Returned (t\<lparr>user := snd (analyse_element E element (user t)),
                          trace := trace t @ [AnalyseElement element,
                                              ErrorLog (str ex @ '': skipping element'') element,
                                              PrintTraceback ex]\<rparr>))"
    if "fst (analyse_element E element (user t)) = Inl ex" for n t
    using attempt_other [OF attempt_body_raised [OF that] assms(2,3), of n]
    by (simp add: error_logger_def emit_def)
  let ?d = "fst (read_query E (query element)) @ ''/'' @ stage_name s"
  have "fst (analyse_element E element (user (set_dest_q ?d s))) = Inl ex"
    using assms(1) by (simp only: set_dest_q_fields)
  from one [OF this, of 5] have "analyse E (element # rest) s =
      (if dev s then
              Raised ex (s\<lparr>dest_q := ?d,
                           user := snd (analyse_element E element (user s)),
                           trace := trace s @ [SetDestQ ?d, AnalyseElement element]\<rparr>)
            else
              analyse E rest
                (s\<lparr>dest_q := ?d,
                   user := snd (analyse_element E element (user s)),
                   trace := trace s @
                     [SetDestQ ?d, AnalyseElement element,
                      ErrorLog (str ex @ '': skipping element'') element,
                      PrintTraceback ex],
                   disk := (disk s)\<lparr>delete_local_on_write := False\<rparr>\<rparr>))"
    by (simp add: set_dest_q_def emit_def Let_def)
  with one [OF assms(1), of attempts] show ?thesis by blast
qed

theorem unclassified_exception_witness:
  "fst (analyse_element demo_env (el ''boom'' ''selA'') (user (demo_analyser [''selA''] True [])))
     = Inl (OtherException ''boom'') \<and>
   analyse demo_env [el ''boom'' ''selA'', el ''a'' ''selA''] (demo_analyser [''selA''] True []) =
     Raised (OtherException ''boom'')
       ((demo_analyser [''selA''] True [])
          \<lparr>dest_q := ''selA/an'', user := 1,
           trace := [SetDestQ ''selA/an'', AnalyseElement (el ''boom'' ''selA'')]\<rparr>) \<and>
   analyse demo_env [el ''boom'' ''selA'', el ''a'' ''selA''] (demo_analyser [''selA''] False []) =
     analyse demo_env [el ''a'' ''selA'']
       ((demo_analyser [''selA''] False [])
          \<lparr>dest_q := ''selA/an'', user := 1,
           disk := \<lparr>delete_local_on_write = False, backend = []\<rparr>,
           trace := [SetDestQ ''selA/an'', AnalyseElement (el ''boom'' ''selA''),
                     ErrorLog ''boom: skipping element'' (el ''boom'' ''selA''),
                     PrintTraceback (OtherException ''boom'')]\<rparr>)"
proof -
  have h: "fst (analyse_element demo_env (el ''boom'' ''selA'')
                  (user (demo_analyser [''selA''] d []))) = Inl (OtherException ''boom'')" for d
    by (simp add: demo_defs)
  have n1: "\<forall>m. OtherException ''boom'' \<noteq> ElementShouldSkipError m" by simp
  have n2: "\<forall>m. OtherException ''boom'' \<noteq> ElementShouldRetryError m" by simp
  show ?thesis
    using h [of True]
      unclassified_exception [OF h [of True] n1 n2, of 5 "[el ''a'' ''selA'']"]
      unclassified_exception [OF h [of False] n1 n2, of 5 "[el ''a'' ''selA'']"]
    by (simp add: demo_defs)
qed

subsection \<open>Retries\<close>

text \<open>
  An element whose hook asks for a retry during the first \<open>k\<close> calls and then produces
  an element that the storage accepts, attempted with more than \<open>k\<close> attempts left. The
  \<open>i\<close>-th call of the hook sees the state that the \<open>i\<close> calls before it left behind.
\<close>

lemma retry_then_write:
  assumes "int k < n"
    and "\<forall>i<k. \<exists>m. fst (analyse_element E element
                         (((\<lambda>u. snd (analyse_element E element u)) ^^ i) (user s)))
                   = Inl (ElementShouldRetryError m)"
    and "fst (analyse_element E element
               (((\<lambda>u. snd (analyse_element E element u)) ^^ k) (user s))) = Inr (Some new)"
    and "fst (write_element E (dest_q s) new (disk s)) = Inr True"
  shows "\<exists>s' evs. attempt_analyse E n element s = Returned s' \<and>
           trace s' = trace s @ evs \<and>
           count_list evs (AnalyseElement element) = Suc k \<and>
           write_dests evs = [(Some element, dest_q s)] \<and>
           filter persists evs =
             [WriteElement (Some element) (dest_q s) new (delete_local_on_write (disk s)) (Inr True)] \<and>
           errored s' = errored s"
  using assms
proof (induction k arbitrary: s n)
  case 0
  let ?w = "WriteElement (Some element) (dest_q s) new (delete_local_on_write (disk s)) (Inr True)"
  from "0.prems"(3) obtain u where au: "analyse_element E element (user s) = (Inr (Some new), u)"
    by (cases "analyse_element E element (user s)") simp
  from "0.prems"(4) obtain d where wd: "write_element E (dest_q s) new (disk s) = (Inr True, d)"
    by (cases "write_element E (dest_q s) new (disk s)") simp
  let ?s' = "s\<lparr>user := u, disk := d, trace := trace s @ [AnalyseElement element, ?w]\<rparr>"
  have "attempt_body E element s = (None, ?s')"
    using au wd by (simp add: attempt_body_def get_dest_q_def emit_def)
  then have "attempt_analyse E n element s = Returned ?s'" by (rule attempt_returned)
  moreover have "trace ?s' = trace s @ [AnalyseElement element, ?w]" by simp
  moreover have "count_list [AnalyseElement element, ?w] (AnalyseElement element) = Suc 0" by simp
  moreover have "write_dests [AnalyseElement element, ?w] = [(Some element, dest_q s)]" by simp
  moreover have "filter persists [AnalyseElement element, ?w] = [?w]" by simp
  moreover have "errored ?s' = errored s" by simp
  ultimately show ?case by blast
next
  case (Suc k)
  let ?step = "\<lambda>u. snd (analyse_element E element u)"
  from Suc.prems(2) have "\<exists>m. fst (analyse_element E element ((?step ^^ 0) (user s)))
                   = Inl (ElementShouldRetryError m)" by blast
  then obtain m where r: "fst (analyse_element E element (user s)) = Inl (ElementShouldRetryError m)"
    by auto
  let ?s1 = "s\<lparr>user := ?step (user s), trace := trace s @ [AnalyseElement element]\<rparr>"
  let ?s2 = "error_logger m element ?s1"
  have b: "attempt_body E element s = (Some (ElementShouldRetryError m), ?s1)"
    using attempt_body_raised [OF r] .
  have n: "1 < n" using Suc.prems(1) by simp
  have step: "attempt_analyse E n element s = attempt_analyse E (n - 1) element ?s2"
    using attempt_retry [OF b n] .
  have fields: "user ?s2 = ?step (user s)" "dest_q ?s2 = dest_q s" "disk ?s2 = disk s"
    "errored ?s2 = errored s" "trace ?s2 = trace s @ [AnalyseElement element, ErrorLog m element]"
    by (simp_all add: error_logger_def emit_def)
  have p1: "int k < n - 1" using Suc.prems(1) by simp
  have p2: "\<forall>i<k. \<exists>m. fst (analyse_element E element ((?step ^^ i) (user ?s2)))
                   = Inl (ElementShouldRetryError m)"
  proof (intro allI impI)
    fix i assume "i < k"
    then have "Suc i < Suc k" by simp
    with Suc.prems(2) have "\<exists>m. fst (analyse_element E element ((?step ^^ Suc i) (user s)))
                   = Inl (ElementShouldRetryError m)" by blast
    then show "\<exists>m. fst (analyse_element E element ((?step ^^ i) (user ?s2)))
                   = Inl (ElementShouldRetryError m)"
      by (simp only: fields funpow_Suc_right o_apply)
  qed
  have p3: "fst (analyse_element E element ((?step ^^ k) (user ?s2))) = Inr (Some new)"
    using Suc.prems(3) by (simp only: fields funpow_Suc_right o_apply)
  have p4: "fst (write_element E (dest_q ?s2) new (disk ?s2)) = Inr True"
    using Suc.prems(4) by (simp only: fields)
  from Suc.IH [OF p1 p2 p3 p4] obtain s' evs where
    r': "attempt_analyse E (n - 1) element ?s2 = Returned s'"
    and t: "trace s' = trace ?s2 @ evs" "count_list evs (AnalyseElement element) = Suc k"
      "write_dests evs = [(Some element, dest_q ?s2)]"
      "filter persists evs =
         [WriteElement (Some element) (dest_q ?s2) new (delete_local_on_write (disk ?s2)) (Inr True)]"
      "errored s' = errored ?s2" by blast
  let ?evs = "[AnalyseElement element, ErrorLog m element] @ evs"
  have "attempt_analyse E n element s = Returned s'" using step r' by simp
  moreover have "trace s' = trace s @ ?evs" using t(1) by (simp only: fields append_assoc)
  moreover have "count_list ?evs (AnalyseElement element) = Suc (Suc k)" using t(2) by simp
  moreover have "write_dests ?evs = [(Some element, dest_q s)]" using t(3) by (simp add: fields)
  moreover have "filter persists ?evs =
      [WriteElement (Some element) (dest_q s) new (delete_local_on_write (disk s)) (Inr True)]"
    using t(4) by (simp add: fields)
  moreover have "errored s' = errored s" using t(5) by (simp only: fields)
  ultimately show ?case by blast
qed

text \<open>
  C6. Take an element whose hook raises the should-retry error in its first \<open>k\<close> calls,
  \<open>k < 5\<close>, and in the next call produces a new element that \<open>write_element\<close> stores under
  the current destination. Then \<open>__attempt_analyse(5, element)\<close> returns normally after
  \<open>k + 1\<close> calls of the hook and exactly one call of \<open>write_element\<close>, the one that stored
  the new element; \<open>errored\<close> has the value it had before, so a run that was not marked
  stays unmarked.
\<close>

theorem retry_then_success:
  assumes "k < 5"
    and "\<forall>i<k. \<exists>m. fst (analyse_element E element
                         (((\<lambda>u. snd (analyse_element E element u)) ^^ i) (user s)))
                   = Inl (ElementShouldRetryError m)"
    and "fst (analyse_element E element
               (((\<lambda>u. snd (analyse_element E element u)) ^^ k) (user s))) = Inr (Some new)"
    and "fst (write_element E (dest_q s) new (disk s)) = Inr True"
  shows "\<exists>s' evs. attempt_analyse E 5 element s = Returned s' \<and>
           trace s' = trace s @ evs \<and>
           count_list evs (AnalyseElement element) = Suc k \<and>
           write_dests evs = [(Some element, dest_q s)] \<and>
           filter persists evs =
             [WriteElement (Some element) (dest_q s) new (delete_local_on_write (disk s)) (Inr True)] \<and>
           errored s' = errored s"
proof -
  have "int k < 5" using assms(1) by simp
  from retry_then_write [OF this assms(2,3,4)] show ?thesis .
qed

theorem retry_then_success_witness:
  "(2::nat) < 5 \<and>
   fst (analyse_element demo_env (el ''flaky'' ''selA'') 0) = Inl (ElementShouldRetryError ''busy'') \<and>
   fst (analyse_element demo_env (el ''flaky'' ''selA'') 1) = Inl (ElementShouldRetryError ''busy'') \<and>
   fst (analyse_element demo_env (el ''flaky'' ''selA'') 2) = Inr (Some (el ''flaky'' ''selA'')) \<and>
   (\<exists>s' evs. attempt_analyse demo_env 5 (el ''flaky'' ''selA'')
               ((demo_analyser [''selA''] False [])\<lparr>dest_q := ''selA/an''\<rparr>) = Returned s' \<and>
       trace s' = evs \<and>
       count_list evs (AnalyseElement (el ''flaky'' ''selA'')) = 3 \<and>
       write_dests evs = [(Some (el ''flaky'' ''selA''), ''selA/an'')] \<and>
       filter persists evs =
         [WriteElement (Some (el ''flaky'' ''selA'')) ''selA/an'' (el ''flaky'' ''selA'') True (Inr True)] \<and>
       \<not> errored s')"
proof -
  let ?s = "(demo_analyser [''selA''] False [])\<lparr>dest_q := ''selA/an''\<rparr>"
  let ?e = "el ''flaky'' ''selA''"
  have h1: "(2::nat) < 5" by simp
  have less2: "i = 0 \<or> i = Suc 0" if "i < 2" for i :: nat using that by auto
  have h2: "\<forall>i<2. \<exists>m. fst (analyse_element demo_env ?e
                      (((\<lambda>u. snd (analyse_element demo_env ?e u)) ^^ i) (user ?s)))
                = Inl (ElementShouldRetryError m)"
    by (auto dest!: less2 simp: demo_defs)
  have h3: "fst (analyse_element demo_env ?e
               (((\<lambda>u. snd (analyse_element demo_env ?e u)) ^^ 2) (user ?s))) = Inr (Some ?e)"
    by (simp add: demo_defs numeral_2_eq_2)
  have h4: "fst (write_element demo_env (dest_q ?s) ?e (disk ?s)) = Inr True"
    by (simp add: demo_defs)
  show ?thesis
    using retry_then_success [OF h1 h2 h3 h4] by (simp add: demo_defs)
qed

subsection \<open>The loop over the elements\<close>

text \<open>
  A property of the state that every step of \<open>__attempt_analyse\<close> keeps holds when it
  ends, however many retries there were and whether it returned or raised.
\<close>

lemma attempt_analyse_invariant:
  assumes body: "\<And>t r t1. P t \<Longrightarrow> attempt_body E e t = (r, t1) \<Longrightarrow> P t1"
    and log: "\<And>t m. P t \<Longrightarrow> P (error_logger m e t)"
    and tb: "\<And>t ex. P t \<Longrightarrow> P (emit (PrintTraceback ex) t)"
    and err: "\<And>t. P t \<Longrightarrow> P (t\<lparr>errored := True\<rparr>)"
    and start: "P s"
  shows "P (state_of (attempt_analyse E n e s))"
  using start
proof (induction "nat n" arbitrary: n s)
  case 0
  obtain r s1 where b: "attempt_body E e s = (r, s1)" by (cases "attempt_body E e s")
  have p1: "P s1" using body [OF "0.prems" b] .
  have n: "\<not> 1 < n" using "0.hyps" by simp
  show ?case
  proof (cases r)
    case None
    with b p1 show ?thesis by (simp add: attempt_returned)
  next
    case (Some ex)
    show ?thesis
    proof (cases ex)
      case (ElementShouldSkipError m)
      with Some b log [OF p1, of m] show ?thesis by (simp add: attempt_skip)
    next
      case (ElementShouldRetryError m)
      with Some b have b': "attempt_body E e s = (Some (ElementShouldRetryError m), s1)" by simp
      show ?thesis
        using attempt_exhausted [OF b' n] err [OF log [OF log [OF p1]]] by simp
    next
      case (InvalidAnalyserElements m)
      with Some b have b': "attempt_body E e s = (Some ex, s1)" by simp
      show ?thesis
        using attempt_other [OF b', of n] InvalidAnalyserElements p1 tb [OF log [OF p1]] by simp
    next
      case (OtherException m)
      with Some b have b': "attempt_body E e s = (Some ex, s1)" by simp
      show ?thesis
        using attempt_other [OF b', of n] OtherException p1 tb [OF log [OF p1]] by simp
    qed
  qed
next
  case (Suc k)
  obtain r s1 where b: "attempt_body E e s = (r, s1)" by (cases "attempt_body E e s")
  have p1: "P s1" using body [OF Suc.prems b] .
  show ?case
  proof (cases r)
    case None
    with b p1 show ?thesis by (simp add: attempt_returned)
  next
    case (Some ex)
    show ?thesis
    proof (cases ex)
      case (ElementShouldSkipError m)
      with Some b log [OF p1, of m] show ?thesis by (simp add: attempt_skip)
    next
      case (ElementShouldRetryError m)
      with Some b have b': "attempt_body E e s = (Some (ElementShouldRetryError m), s1)" by simp
      show ?thesis
      proof (cases "1 < n")
        case True
        have "k = nat (n - 1)" using Suc.hyps(2) by simp
        from Suc.hyps(1) [OF this log [OF p1, of m]]
        show ?thesis using attempt_retry [OF b' True] by simp
      next
        case False
        show ?thesis
          using attempt_exhausted [OF b' False] err [OF log [OF log [OF p1]]] by simp
      qed
    next
      case (InvalidAnalyserElements m)
      with Some b have b': "attempt_body E e s = (Some ex, s1)" by simp
      show ?thesis
        using attempt_other [OF b', of n] InvalidAnalyserElements p1 tb [OF log [OF p1]] by simp
    next
      case (OtherException m)
      with Some b have b': "attempt_body E e s = (Some ex, s1)" by simp
      show ?thesis
        using attempt_other [OF b', of n] OtherException p1 tb [OF log [OF p1]] by simp
    qed
  qed
qed

text \<open>What the events of one element's attempts do not contain.\<close>

lemma attempt_events_projections:
  assumes "list_all (attempt_event e d) evs"
  shows "dest_assignments evs = []" and "meta_paths evs = []" and "read_queries evs = []"
    and "list_all (\<lambda>w. w = (Some e, d)) (write_dests evs)"
  using assms
proof (induction evs)
  case Nil
  {
    case 1 show ?case by simp
  next
    case 2 show ?case by simp
  next
    case 3 show ?case by simp
  next
    case 4 show ?case by simp
  }
next
  case (Cons ev evs)
  {
    case 1 with Cons.IH(1) show ?case by (cases ev) simp_all
  next
    case 2 with Cons.IH(2) show ?case by (cases ev) simp_all
  next
    case 3 with Cons.IH(3) show ?case by (cases ev) simp_all
  next
    case 4 with Cons.IH(4) show ?case by (cases ev) simp_all
  }
qed

text \<open>
  The trace of a batch: for each element in turn, the assignment of its destination
  \<open>selector/name\<close> to \<open>dest_q\<close>, then the events of its attempts under that destination.
  When the loop is left by an exception, the trace stops with the element that raised.
\<close>

lemma analyse_trace:
  "\<exists>blocks. length blocks \<le> length els \<and>
     ((\<exists>t. analyse E els s = Returned t) \<longrightarrow> length blocks = length els) \<and>
     trace (state_of (analyse E els s)) =
       trace s @ concat (map (\<lambda>(e, b). SetDestQ (fst (read_query E (query e)) @ ''/'' @ nm) # b)
                           (zip els blocks)) \<and>
     (\<forall>(e, b) \<in> set (zip els blocks).
        list_all (attempt_event e (fst (read_query E (query e)) @ ''/'' @ nm)) b) \<and>
     same_config s (state_of (analyse E els s)) \<and>
     (errored s \<longrightarrow> errored (state_of (analyse E els s)))"
  if "stage_name s = nm"
  using that
proof (induction els arbitrary: s)
  case Nil
  show ?case by (simp add: same_config_def)
next
  case (Cons e els)
  let ?dest = "\<lambda>e. fst (read_query E (query e)) @ ''/'' @ nm"
  let ?blk = "\<lambda>(e, b). SetDestQ (?dest e) # b"
  let ?s1 = "set_dest_q (?dest e) s"
  let ?t1 = "state_of (attempt_analyse E 5 e ?s1)"
  from attempt_analyse_frame [of ?s1 E 5 e]
  obtain b1 where f: "same_config ?s1 ?t1" "errored ?s1 \<longrightarrow> errored ?t1"
    and tr: "trace ?t1 = trace ?s1 @ b1" and ev: "list_all (attempt_event e (?dest e)) b1"
    by (auto simp: set_dest_q_fields)
  have tr1: "trace ?t1 = trace s @ SetDestQ (?dest e) # b1"
    using tr by (simp add: set_dest_q_fields)
  have cfg: "same_config s ?t1" "errored s \<longrightarrow> errored ?t1"
    using f by (simp_all add: same_config_def set_dest_q_fields)
  have unfold: "analyse E (e # els) s =
      (case attempt_analyse E 5 e ?s1 of
         Raised ex s2 \<Rightarrow> Raised ex s2
       | Returned s2 \<Rightarrow> analyse E els (s2\<lparr>disk := (disk s2)\<lparr>delete_local_on_write := False\<rparr>\<rparr>))"
    using Cons.prems by (simp add: Let_def)
  show ?case
  proof (cases "attempt_analyse E 5 e ?s1")
    case (Raised ex s2)
    then have r: "analyse E (e # els) s = Raised ex s2" and t: "?t1 = s2"
      using unfold by simp_all
    have "length [b1] \<le> length (e # els)" by simp
    moreover have "(\<exists>t. analyse E (e # els) s = Returned t) \<longrightarrow> length [b1] = length (e # els)"
      using r by simp
    moreover have "trace (state_of (analyse E (e # els) s)) =
        trace s @ concat (map ?blk (zip (e # els) [b1]))"
      using r t tr1 by simp
    moreover have "\<forall>(x, b) \<in> set (zip (e # els) [b1]). list_all (attempt_event x (?dest x)) b"
      using ev by simp
    moreover have "same_config s (state_of (analyse E (e # els) s))"
      "errored s \<longrightarrow> errored (state_of (analyse E (e # els) s))"
      using r t cfg by simp_all
    ultimately show ?thesis by blast
  next
    case (Returned s2)
    let ?s3 = "s2\<lparr>disk := (disk s2)\<lparr>delete_local_on_write := False\<rparr>\<rparr>"
    from Returned have r: "analyse E (e # els) s = analyse E els ?s3" and t: "?t1 = s2"
      using unfold by simp_all
    have s3: "stage_name ?s3 = nm" "same_config s ?s3" "errored s \<longrightarrow> errored ?s3"
      "trace ?s3 = trace s @ SetDestQ (?dest e) # b1"
      using cfg tr1 t Cons.prems by (simp_all add: same_config_def)
    from Cons.IH [OF s3(1)] obtain blocks where
      l: "length blocks \<le> length els"
        "(\<exists>t. analyse E els ?s3 = Returned t) \<longrightarrow> length blocks = length els"
      and tr3: "trace (state_of (analyse E els ?s3)) = trace ?s3 @ concat (map ?blk (zip els blocks))"
      and ev3: "\<forall>(x, b) \<in> set (zip els blocks). list_all (attempt_event x (?dest x)) b"
      and cfg3: "same_config ?s3 (state_of (analyse E els ?s3))"
        "errored ?s3 \<longrightarrow> errored (state_of (analyse E els ?s3))"
      by blast
    have "length (b1 # blocks) \<le> length (e # els)" using l by simp
    moreover have "(\<exists>t. analyse E (e # els) s = Returned t) \<longrightarrow>
        length (b1 # blocks) = length (e # els)"
      using l r by simp
    moreover have "trace (state_of (analyse E (e # els) s)) =
        trace s @ concat (map ?blk (zip (e # els) (b1 # blocks)))"
      using r tr3 s3(4) by simp
    moreover have "\<forall>(x, b) \<in> set (zip (e # els) (b1 # blocks)).
        list_all (attempt_event x (?dest x)) b"
      using ev ev3 by simp
    moreover have "same_config s (state_of (analyse E (e # els) s))"
      "errored s \<longrightarrow> errored (state_of (analyse E (e # els) s))"
      using r s3 cfg3 by (simp_all add: same_config_def)
    ultimately show ?thesis by blast
  qed
qed

subsection \<open>The destination query\<close>

text \<open>
  C4, as the code has it. \<open>dest_q\<close> is not assigned once per run: the loop of \<open>analyse\<close>
  assigns it for every element, immediately before the attempts of that element, to the
  selector name of the element's own query followed by \<open>/\<close> and the stage name. During
  the attempts of an element it is not assigned again, and every write made for the
  element goes under that destination. The trace of a batch is therefore, element after
  element, one assignment followed by the events of that element's attempts (an element
  that raises ends the batch, then the later elements have no block).
\<close>

theorem dest_q_assigned_per_element:
  "dest_q (state_of (attempt_analyse E attempts element s)) = dest_q s \<and>
   (\<exists>blocks. length blocks \<le> length elements \<and>
      ((\<exists>t. analyse E elements s = Returned t) \<longrightarrow> length blocks = length elements) \<and>
      trace (state_of (analyse E elements s)) =
        trace s @ concat (map (\<lambda>(e, b). SetDestQ (fst (read_query E (query e)) @ ''/'' @ stage_name s) # b)
                            (zip elements blocks)) \<and>
      (\<forall>(e, b) \<in> set (zip elements blocks).
         list_all (attempt_event e (fst (read_query E (query e)) @ ''/'' @ stage_name s)) b))"
proof -
  have "dest_q (state_of (attempt_analyse E attempts element s)) = dest_q s"
    using attempt_analyse_frame [of s E attempts element] by blast
  moreover from analyse_trace [of s "stage_name s" elements E]
  have "\<exists>blocks. length blocks \<le> length elements \<and>
      ((\<exists>t. analyse E elements s = Returned t) \<longrightarrow> length blocks = length elements) \<and>
      trace (state_of (analyse E elements s)) =
        trace s @ concat (map (\<lambda>(e, b). SetDestQ (fst (read_query E (query e)) @ ''/'' @ stage_name s) # b)
                            (zip elements blocks)) \<and>
      (\<forall>(e, b) \<in> set (zip elements blocks).
         list_all (attempt_event e (fst (read_query E (query e)) @ ''/'' @ stage_name s)) b)"
    by blast
  ultimately show ?thesis by blast
qed

theorem dest_q_assigned_per_element_witness:
  "analyse demo_env [el ''a'' ''selA'', el ''skip'' ''selB'']
      (demo_analyser [''selA'', ''selB''] False []) =
     Returned ((demo_analyser [''selA'', ''selB''] False [])
       \<lparr>dest_q := ''selB/an'', user := 2,
        disk := \<lparr>delete_local_on_write = False, backend = [(''selA/an'', el ''a'' ''selA'')]\<rparr>,
        trace := [SetDestQ ''selA/an'', AnalyseElement (el ''a'' ''selA''),
                  WriteElement (Some (el ''a'' ''selA'')) ''selA/an'' (el ''a'' ''selA'') True (Inr True),
                  SetDestQ ''selB/an'', AnalyseElement (el ''skip'' ''selB''),
                  ErrorLog ''not relevant'' (el ''skip'' ''selB'')]\<rparr>) \<and>
   (\<exists>blocks. length blocks = 2 \<and>
      (\<forall>(e, b) \<in> set (zip [el ''a'' ''selA'', el ''skip'' ''selB''] blocks).
         list_all (attempt_event e (fst (read_query demo_env (query e)) @ ''/an'')) b))"
proof -
  let ?els = "[el ''a'' ''selA'', el ''skip'' ''selB'']"
  let ?s = "demo_analyser [''selA'', ''selB''] False []"
  have run: "analyse demo_env ?els ?s =
     Returned (?s
       \<lparr>dest_q := ''selB/an'', user := 2,
        disk := \<lparr>delete_local_on_write = False, backend = [(''selA/an'', el ''a'' ''selA'')]\<rparr>,
        trace := [SetDestQ ''selA/an'', AnalyseElement (el ''a'' ''selA''),
                  WriteElement (Some (el ''a'' ''selA'')) ''selA/an'' (el ''a'' ''selA'') True (Inr True),
                  SetDestQ ''selB/an'', AnalyseElement (el ''skip'' ''selB''),
                  ErrorLog ''not relevant'' (el ''skip'' ''selB'')]\<rparr>)"
    by (simp add: run_defs log_defs demo_defs)
  have nm: "stage_name ?s = ''an''" by (simp add: demo_defs)
  from dest_q_assigned_per_element [of demo_env 5 "el ''a'' ''selA''" ?s ?els]
  obtain blocks where
    "(\<exists>t. analyse demo_env ?els ?s = Returned t) \<longrightarrow> length blocks = length ?els"
    "\<forall>(e, b) \<in> set (zip ?els blocks).
         list_all (attempt_event e (fst (read_query demo_env (query e)) @ ''/'' @ stage_name ?s)) b"
    by blast
  with run have "length blocks = 2 \<and>
      (\<forall>(e, b) \<in> set (zip ?els blocks).
         list_all (attempt_event e (fst (read_query demo_env (query e)) @ ''/an'')) b)"
    by (simp add: nm)
  then have "\<exists>blocks. length blocks = 2 \<and>
      (\<forall>(e, b) \<in> set (zip ?els blocks).
         list_all (attempt_event e (fst (read_query demo_env (query e)) @ ''/an'')) b)" by blast
  with run show ?thesis by blast
qed

text \<open>
  The claim as it stands, that \<open>dest_q\<close> is written once before the dispatch and that all
  elements of the batch are written under this one destination, fails for a batch of two
  elements from two selectors: \<open>dest_q\<close> is assigned twice, to two different values, and
  the two elements are written under two different destinations.
\<close>

theorem dest_q_written_once_counterexample:
  "dest_assignments (trace (state_of
      (analyse demo_env [el ''a'' ''selA'', el ''b'' ''selB'']
         (demo_analyser [''selA'', ''selB''] False [])))) = [''selA/an'', ''selB/an''] \<and>
   write_dests (trace (state_of
      (analyse demo_env [el ''a'' ''selA'', el ''b'' ''selB'']
         (demo_analyser [''selA'', ''selB''] False [])))) =
     [(Some (el ''a'' ''selA''), ''selA/an''), (Some (el ''b'' ''selB''), ''selB/an'')]"
  by (simp add: run_defs log_defs demo_defs)

subsection \<open>The flag \<open>delete_local_on_write\<close>\<close>

lemma write_flags_append: "write_flags (xs @ ys) = write_flags xs @ write_flags ys"
  by (induction xs rule: write_flags.induct) simp_all

text \<open>
  The attempts of an element do not assign the flag. If the backend's \<open>write_element\<close>
  leaves it alone too, every write of the attempts sees the value from before.
\<close>

lemma attempt_analyse_flags:
  fixes s :: "('u, 'd) Analyser"
  assumes pres: "\<forall>dest new st.
      delete_local_on_write (snd (write_element E dest new st)) = delete_local_on_write st"
  shows "delete_local_on_write (disk (state_of (attempt_analyse E n e s)))
           = delete_local_on_write (disk s) \<and>
         (\<exists>evs. trace (state_of (attempt_analyse E n e s)) = trace s @ evs \<and>
                list_all (\<lambda>f. f = delete_local_on_write (disk s)) (write_flags evs))"
proof (rule attempt_analyse_invariant [where P = "\<lambda>t.
          delete_local_on_write (disk t) = delete_local_on_write (disk s) \<and>
          (\<exists>evs. trace t = trace s @ evs \<and>
                 list_all (\<lambda>f. f = delete_local_on_write (disk s)) (write_flags evs))"])
  fix t t1 :: "('u, 'd) Analyser" and r
  assume p: "delete_local_on_write (disk t) = delete_local_on_write (disk s) \<and>
          (\<exists>evs. trace t = trace s @ evs \<and>
                 list_all (\<lambda>f. f = delete_local_on_write (disk s)) (write_flags evs))"
    and b: "attempt_body E e t = (r, t1)"
  then obtain evs where t: "trace t = trace s @ evs"
    "list_all (\<lambda>f. f = delete_local_on_write (disk s)) (write_flags evs)" by blast
  obtain a u where au: "analyse_element E e (user t) = (a, u)"
    by (cases "analyse_element E e (user t)")
  let ?t0 = "emit (AnalyseElement e) (t\<lparr>user := u\<rparr>)"
  have "(disk t1 = disk t \<and> trace t1 = trace t @ [AnalyseElement e]) \<or>
        (\<exists>new w. disk t1 = snd (write_element E (get_dest_q ?t0) new (disk t)) \<and>
           trace t1 = trace t @ [AnalyseElement e,
              WriteElement (Some e) (get_dest_q ?t0) new (delete_local_on_write (disk t)) w])"
    using b au
    by (auto simp: attempt_body_def emit_def Let_def
             split: sum.splits option.splits prod.splits if_splits)
  then show "delete_local_on_write (disk t1) = delete_local_on_write (disk s) \<and>
          (\<exists>evs. trace t1 = trace s @ evs \<and>
                 list_all (\<lambda>f. f = delete_local_on_write (disk s)) (write_flags evs))"
  proof
    assume "disk t1 = disk t \<and> trace t1 = trace t @ [AnalyseElement e]"
    then have "delete_local_on_write (disk t1) = delete_local_on_write (disk s)"
      "trace t1 = trace s @ (evs @ [AnalyseElement e])"
      "list_all (\<lambda>f. f = delete_local_on_write (disk s)) (write_flags (evs @ [AnalyseElement e]))"
      using p t by (simp_all add: write_flags_append)
    then show ?thesis by blast
  next
    assume "\<exists>new w. disk t1 = snd (write_element E (get_dest_q ?t0) new (disk t)) \<and>
           trace t1 = trace t @ [AnalyseElement e,
              WriteElement (Some e) (get_dest_q ?t0) new (delete_local_on_write (disk t)) w]"
    then obtain new w where d: "disk t1 = snd (write_element E (get_dest_q ?t0) new (disk t))"
      and tr: "trace t1 = trace t @ [AnalyseElement e,
              WriteElement (Some e) (get_dest_q ?t0) new (delete_local_on_write (disk t)) w]"
      by blast
    let ?new = "[AnalyseElement e,
              WriteElement (Some e) (get_dest_q ?t0) new (delete_local_on_write (disk t)) w]"
    have "delete_local_on_write (disk t1) = delete_local_on_write (disk s)"
      using d pres p by simp
    moreover have "trace t1 = trace s @ (evs @ ?new)" using tr t by simp
    moreover have "list_all (\<lambda>f. f = delete_local_on_write (disk s)) (write_flags (evs @ ?new))"
      using t p by (simp add: write_flags_append)
    ultimately show ?thesis by blast
  qed
next
  fix t :: "('u, 'd) Analyser" and m
  assume "delete_local_on_write (disk t) = delete_local_on_write (disk s) \<and>
          (\<exists>evs. trace t = trace s @ evs \<and>
                 list_all (\<lambda>f. f = delete_local_on_write (disk s)) (write_flags evs))"
  then obtain evs where "delete_local_on_write (disk t) = delete_local_on_write (disk s)"
    "trace t = trace s @ evs"
    "list_all (\<lambda>f. f = delete_local_on_write (disk s)) (write_flags evs)" by blast
  then have "delete_local_on_write (disk (error_logger m e t)) = delete_local_on_write (disk s)"
    "trace (error_logger m e t) = trace s @ (evs @ [ErrorLog m e])"
    "list_all (\<lambda>f. f = delete_local_on_write (disk s)) (write_flags (evs @ [ErrorLog m e]))"
    by (simp_all add: error_logger_def emit_def write_flags_append)
  then show "delete_local_on_write (disk (error_logger m e t)) = delete_local_on_write (disk s) \<and>
          (\<exists>evs. trace (error_logger m e t) = trace s @ evs \<and>
                 list_all (\<lambda>f. f = delete_local_on_write (disk s)) (write_flags evs))" by blast
next
  fix t :: "('u, 'd) Analyser" and ex
  assume "delete_local_on_write (disk t) = delete_local_on_write (disk s) \<and>
          (\<exists>evs. trace t = trace s @ evs \<and>
                 list_all (\<lambda>f. f = delete_local_on_write (disk s)) (write_flags evs))"
  then obtain evs where "delete_local_on_write (disk t) = delete_local_on_write (disk s)"
    "trace t = trace s @ evs"
    "list_all (\<lambda>f. f = delete_local_on_write (disk s)) (write_flags evs)" by blast
  then have "delete_local_on_write (disk (emit (PrintTraceback ex) t)) = delete_local_on_write (disk s)"
    "trace (emit (PrintTraceback ex) t) = trace s @ (evs @ [PrintTraceback ex])"
    "list_all (\<lambda>f. f = delete_local_on_write (disk s)) (write_flags (evs @ [PrintTraceback ex]))"
    by (simp_all add: emit_def write_flags_append)
  then show "delete_local_on_write (disk (emit (PrintTraceback ex) t)) = delete_local_on_write (disk s) \<and>
          (\<exists>evs. trace (emit (PrintTraceback ex) t) = trace s @ evs \<and>
                 list_all (\<lambda>f. f = delete_local_on_write (disk s)) (write_flags evs))" by blast
next
  fix t :: "('u, 'd) Analyser"
  assume "delete_local_on_write (disk t) = delete_local_on_write (disk s) \<and>
          (\<exists>evs. trace t = trace s @ evs \<and>
                 list_all (\<lambda>f. f = delete_local_on_write (disk s)) (write_flags evs))"
  then show "delete_local_on_write (disk (t\<lparr>errored := True\<rparr>)) = delete_local_on_write (disk s) \<and>
          (\<exists>evs. trace (t\<lparr>errored := True\<rparr>) = trace s @ evs \<and>
                 list_all (\<lambda>f. f = delete_local_on_write (disk s)) (write_flags evs))" by simp
next
  show "delete_local_on_write (disk s) = delete_local_on_write (disk s) \<and>
          (\<exists>evs. trace s = trace s @ evs \<and>
                 list_all (\<lambda>f. f = delete_local_on_write (disk s)) (write_flags evs))" by simp
qed

text \<open>Once the flag is false, it is false for every write of a batch, and afterwards.\<close>

lemma analyse_flags:
  assumes pres: "\<forall>dest new st.
      delete_local_on_write (snd (write_element E dest new st)) = delete_local_on_write st"
  shows "\<not> delete_local_on_write (disk s) \<Longrightarrow>
         \<not> delete_local_on_write (disk (state_of (analyse E els s))) \<and>
         (\<exists>evs. trace (state_of (analyse E els s)) = trace s @ evs \<and>
                list_all (\<lambda>f. f = False) (write_flags evs))"
proof (induction els arbitrary: s)
  case Nil
  then show ?case by simp
next
  case (Cons e els)
  let ?s1 = "set_dest_q (fst (read_query E (query e)) @ ''/'' @ stage_name s) s"
  let ?t1 = "state_of (attempt_analyse E 5 e ?s1)"
  from attempt_analyse_flags [OF pres, of 5 e ?s1] Cons.prems
  obtain evs1 where f1: "\<not> delete_local_on_write (disk ?t1)"
    and t1: "trace ?t1 = trace s @ (SetDestQ (fst (read_query E (query e)) @ ''/'' @ stage_name s) # evs1)"
      "list_all (\<lambda>f. f = False) (write_flags evs1)"
    by (auto simp: set_dest_q_fields)
  show ?case
  proof (cases "attempt_analyse E 5 e ?s1")
    case (Raised ex s2)
    then have "analyse E (e # els) s = Raised ex s2" "?t1 = s2" by (simp_all add: Let_def)
    with f1 t1 show ?thesis by auto
  next
    case (Returned s2)
    let ?s3 = "s2\<lparr>disk := (disk s2)\<lparr>delete_local_on_write := False\<rparr>\<rparr>"
    from Returned have r: "analyse E (e # els) s = analyse E els ?s3" "?t1 = s2"
      by (simp_all add: Let_def)
    have "\<not> delete_local_on_write (disk ?s3)" by simp
    from Cons.IH [OF this] obtain evs2 where
      f3: "\<not> delete_local_on_write (disk (state_of (analyse E els ?s3)))"
      and t3: "trace (state_of (analyse E els ?s3)) = trace ?s3 @ evs2"
        "list_all (\<lambda>f. f = False) (write_flags evs2)" by blast
    let ?evs = "(SetDestQ (fst (read_query E (query e)) @ ''/'' @ stage_name s) # evs1) @ evs2"
    have "trace (state_of (analyse E (e # els) s)) = trace s @ ?evs"
      using r t1 t3 by simp
    moreover have "list_all (\<lambda>f. f = False) (write_flags ?evs)"
      using t1 t3 by (simp add: write_flags_append)
    ultimately show ?thesis using f3 r by metis
  qed
qed

text \<open>
  C3, as the code has it. The loop of \<open>analyse\<close> sets the flag to false after the attempts
  of every element and nothing in the analyser sets it back. So, for a backend whose
  \<open>write_element\<close> leaves the flag alone: the writes made for the first element of a batch
  see the flag as it was when the batch began, the writes made for every later element
  see it false, and it is false when the batch has completed.
\<close>

theorem flag_false_after_first_element:
  assumes "\<forall>dest new st.
      delete_local_on_write (snd (write_element E dest new st)) = delete_local_on_write st"
    and "analyse E (element # elements) s = Returned s'"
  shows "\<exists>s1 evs1 evs2.
           attempt_analyse E 5 element
             (set_dest_q (fst (read_query E (query element)) @ ''/'' @ stage_name s) s) = Returned s1 \<and>
           trace s1 = trace s @ SetDestQ (fst (read_query E (query element)) @ ''/'' @ stage_name s) # evs1 \<and>
           trace s' = trace s1 @ evs2 \<and>
           list_all (\<lambda>f. f = delete_local_on_write (disk s)) (write_flags evs1) \<and>
           list_all (\<lambda>f. f = False) (write_flags evs2) \<and>
           delete_local_on_write (disk s') = False"
proof -
  let ?d = "fst (read_query E (query element)) @ ''/'' @ stage_name s"
  let ?s0 = "set_dest_q ?d s"
  obtain s1 where r1: "attempt_analyse E 5 element ?s0 = Returned s1"
    using assms(2) by (cases "attempt_analyse E 5 element ?s0") (simp_all add: Let_def)
  let ?s3 = "s1\<lparr>disk := (disk s1)\<lparr>delete_local_on_write := False\<rparr>\<rparr>"
  have r3: "analyse E elements ?s3 = Returned s'"
    using assms(2) r1 by (simp add: Let_def)
  from attempt_analyse_flags [OF assms(1), of 5 element ?s0] r1
  obtain evs1 where t1: "trace s1 = trace s @ SetDestQ ?d # evs1"
    "list_all (\<lambda>f. f = delete_local_on_write (disk s)) (write_flags evs1)"
    by (auto simp: set_dest_q_fields)
  have "\<not> delete_local_on_write (disk ?s3)" by simp
  from analyse_flags [OF assms(1) this, of elements] r3
  obtain evs2 where t3: "trace s' = trace s1 @ evs2" "list_all (\<lambda>f. f = False) (write_flags evs2)"
    and f: "delete_local_on_write (disk s') = False"
    by auto
  from r1 t1 t3 f show ?thesis by blast
qed

theorem flag_false_after_first_element_witness:
  "(\<forall>dest new st. delete_local_on_write (snd (write_element demo_env dest new st))
                     = delete_local_on_write st) \<and>
   (\<exists>s'. analyse demo_env [el ''a'' ''selA'', el ''b'' ''selA'', el ''c'' ''selA'']
             (demo_analyser [''selA''] False []) = Returned s' \<and>
          delete_local_on_write (disk s') = False \<and>
          (\<exists>evs1 evs2.
              trace s' = SetDestQ ''selA/an'' # evs1 @ evs2 \<and>
              list_all (\<lambda>f. f = True) (write_flags evs1) \<and>
              list_all (\<lambda>f. f = False) (write_flags evs2)))"
proof -
  let ?els = "[el ''b'' ''selA'', el ''c'' ''selA'']"
  let ?s = "demo_analyser [''selA''] False []"
  have h1: "\<forall>dest new st. delete_local_on_write (snd (write_element demo_env dest new st))
                     = delete_local_on_write st"
    by (simp add: demo_defs)
  obtain s' where h2: "analyse demo_env (el ''a'' ''selA'' # ?els) ?s = Returned s'"
    by (simp add: run_defs log_defs demo_defs)
  from flag_false_after_first_element [OF h1 h2]
  obtain s1 :: "(nat, (string \<times> LocalElement) list) Analyser" and evs1 evs2 where
    "trace s1 = trace ?s @ SetDestQ (fst (read_query demo_env (query (el ''a'' ''selA'')))
                                       @ ''/'' @ stage_name ?s) # evs1"
    "trace s' = trace s1 @ evs2"
    "list_all (\<lambda>f. f = delete_local_on_write (disk ?s)) (write_flags evs1)"
    "list_all (\<lambda>f. f = False) (write_flags evs2)"
    "delete_local_on_write (disk s') = False"
    by blast
  then have "delete_local_on_write (disk s') = False \<and>
          (\<exists>evs1 evs2.
              trace s' = SetDestQ ''selA/an'' # evs1 @ evs2 \<and>
              list_all (\<lambda>f. f = True) (write_flags evs1) \<and>
              list_all (\<lambda>f. f = False) (write_flags evs2))"
    by (auto simp: demo_defs)
  with h1 h2 show ?thesis by blast
qed

text \<open>
  The claim as it stands fails on a batch of three elements, on a storage whose flag is
  set when the batch begins: the second element, which is not the last, is written with
  the flag already false, and the flag is still false after the batch.
\<close>

theorem flag_only_for_last_counterexample:
  "delete_local_on_write (disk (demo_analyser [''selA''] False [])) = True \<and>
   write_flags (trace (state_of
      (analyse demo_env [el ''a'' ''selA'', el ''b'' ''selA'', el ''c'' ''selA'']
         (demo_analyser [''selA''] False [])))) = [True, False, False] \<and>
   delete_local_on_write (disk (state_of
      (analyse demo_env [el ''a'' ''selA'', el ''b'' ''selA'', el ''c'' ''selA'']
         (demo_analyser [''selA''] False [])))) = False"
  by (simp add: run_defs log_defs demo_defs)

subsection \<open>A run that finds no input\<close>

text \<open>
  C7. When \<open>pre_analyse\<close> has returned and \<open>read_elements\<close> on the input queries raises, or
  returns no element, \<open>start_analysing\<close> raises \<open>InvalidAnalyserElements\<close>. Up to that
  point the run has logged its first line and called \<open>read_elements\<close>, nothing else: no
  element was given to the hook, nothing was written, and there is no metadata record.
\<close>

theorem no_input_is_fatal:
  assumes "pre_analyse E (user s) = (None, u)"
    and "(\<exists>ex. fst (read_elements E (elements_in s) (disk s)) = Inl ex) \<or>
         fst (read_elements E (elements_in s) (disk s)) = Inr []"
  shows "\<exists>m. start_analysing E s =
           Raised (InvalidAnalyserElements m)
             (s\<lparr>user := u,
                disk := snd (read_elements E (elements_in s) (disk s)),
                trace := trace s @
                  [Log (''Running analysis '' @ (if in_parallel s then ''in parallel'' else ''serially'')),
                   ReadElements (elements_in s)]\<rparr>)"
proof -
  obtain r d where rd: "read_elements E (elements_in s) (disk s) = (r, d)"
    by (cases "read_elements E (elements_in s) (disk s)")
  from assms(2) rd have "(\<exists>ex. r = Inl ex) \<or> r = Inr []" by simp
  then show ?thesis
  proof
    assume "\<exists>ex. r = Inl ex"
    then obtain ex where "r = Inl ex" by blast
    with assms(1) rd show ?thesis
      by (simp add: start_analysing_def do_pre_analyse_def do_analyse_def log_defs)
  next
    assume "r = Inr []"
    with assms(1) rd show ?thesis
      by (simp add: start_analysing_def do_pre_analyse_def do_analyse_def log_defs)
  qed
qed

theorem no_input_is_fatal_witness:
  "pre_analyse demo_env (user (demo_analyser [''corrupt''] False [])) = (None, 0) \<and>
   (\<exists>ex. fst (read_elements demo_env (elements_in (demo_analyser [''corrupt''] False []))
                 (disk (demo_analyser [''corrupt''] False []))) = Inl ex) \<and>
   (\<exists>m. start_analysing demo_env (demo_analyser [''corrupt''] False []) =
           Raised (InvalidAnalyserElements m)
             ((demo_analyser [''corrupt''] False [])
                \<lparr>trace := [Log ''Running analysis serially'', ReadElements [''corrupt'']]\<rparr>)) \<and>
   fst (read_elements demo_env (elements_in (demo_analyser [''selA''] False []))
          (disk (demo_analyser [''selA''] False []))) = Inr [] \<and>
   (\<exists>m. start_analysing demo_env (demo_analyser [''selA''] False []) =
           Raised (InvalidAnalyserElements m)
             ((demo_analyser [''selA''] False [])
                \<lparr>trace := [Log ''Running analysis serially'', ReadElements [''selA'']]\<rparr>))"
proof -
  let ?c = "demo_analyser [''corrupt''] False []"
  let ?e = "demo_analyser [''selA''] False []"
  have p: "pre_analyse demo_env (user ?c) = (None, 0)" "pre_analyse demo_env (user ?e) = (None, 0)"
    by (simp_all add: demo_defs)
  have c: "\<exists>ex. fst (read_elements demo_env (elements_in ?c) (disk ?c)) = Inl ex"
    by (simp add: demo_defs)
  have e: "fst (read_elements demo_env (elements_in ?e) (disk ?e)) = Inr []"
    by (simp add: demo_defs)
  from no_input_is_fatal [OF p(1) disjI1 [OF c]]
  have rc: "\<exists>m. start_analysing demo_env ?c =
           Raised (InvalidAnalyserElements m)
             (?c\<lparr>trace := [Log ''Running analysis serially'', ReadElements [''corrupt'']]\<rparr>)"
    by (simp add: demo_defs)
  from no_input_is_fatal [OF p(2) disjI2 [OF e]]
  have re: "\<exists>m. start_analysing demo_env ?e =
           Raised (InvalidAnalyserElements m)
             (?e\<lparr>trace := [Log ''Running analysis serially'', ReadElements [''selA'']]\<rparr>)"
    by (simp add: demo_defs)
  from p(1) c rc e re show ?thesis by blast
qed

subsection \<open>The post phase and the whole run\<close>

lemma meta_paths_append: "meta_paths (xs @ ys) = meta_paths xs @ meta_paths ys"
  by (induction xs rule: meta_paths.induct) simp_all

lemma read_queries_append: "read_queries (xs @ ys) = read_queries xs @ read_queries ys"
  by (induction xs rule: read_queries.induct) simp_all

lemma write_dests_append: "write_dests (xs @ ys) = write_dests xs @ write_dests ys"
  by (induction xs rule: write_dests.induct) simp_all

lemma post_events_projections:
  assumes "list_all (post_event dests) evs"
  shows "meta_paths evs = []" and "read_queries evs = []"
    and "list_all (\<lambda>w. fst w = None \<and> snd w \<in> set dests) (write_dests evs)"
  using assms
proof (induction evs)
  case Nil
  {
    case 1 show ?case by simp
  next
    case 2 show ?case by simp
  next
    case 3 show ?case by simp
  }
next
  case (Cons ev evs)
  {
    case 1 with Cons.IH(1) show ?case by (cases ev) simp_all
  next
    case 2 with Cons.IH(2) show ?case by (cases ev) simp_all
  next
    case 3 with Cons.IH(3) show ?case by (cases ev) simp_all
  }
qed

text \<open>What the events of a whole batch do not contain, and where its writes go.\<close>

lemma blocks_projections:
  assumes "\<forall>(e, b) \<in> set (zip els blocks). list_all (attempt_event e (dest e)) b"
  shows "meta_paths (concat (map (\<lambda>(e, b). SetDestQ (dest e) # b) (zip els blocks))) = []"
    and "read_queries (concat (map (\<lambda>(e, b). SetDestQ (dest e) # b) (zip els blocks))) = []"
    and "list_all (\<lambda>w. \<exists>e \<in> set els. w = (Some e, dest e))
           (write_dests (concat (map (\<lambda>(e, b). SetDestQ (dest e) # b) (zip els blocks))))"
  using assms
proof (induction els arbitrary: blocks)
  case Nil
  {
    case 1 show ?case by simp
  next
    case 2 show ?case by simp
  next
    case 3 show ?case by simp
  }
next
  case (Cons e els)
  {
    case 1
    show ?case
    proof (cases blocks)
      case Nil
      then show ?thesis by simp
    next
      case (Cons b bs)
      with 1 have "list_all (attempt_event e (dest e)) b"
        "\<forall>(e, b) \<in> set (zip els bs). list_all (attempt_event e (dest e)) b" by simp_all
      with Cons.IH(1) [of bs] attempt_events_projections(2) [of e "dest e" b] Cons
      show ?thesis by (simp add: meta_paths_append)
    qed
  next
    case 2
    show ?case
    proof (cases blocks)
      case Nil
      then show ?thesis by simp
    next
      case (Cons b bs)
      with 2 have "list_all (attempt_event e (dest e)) b"
        "\<forall>(e, b) \<in> set (zip els bs). list_all (attempt_event e (dest e)) b" by simp_all
      with Cons.IH(2) [of bs] attempt_events_projections(3) [of e "dest e" b] Cons
      show ?thesis by (simp add: read_queries_append)
    qed
  next
    case 3
    show ?case
    proof (cases blocks)
      case Nil
      then show ?thesis by simp
    next
      case (Cons b bs)
      with 3 have "list_all (attempt_event e (dest e)) b"
        and rest: "\<forall>(e, b) \<in> set (zip els bs). list_all (attempt_event e (dest e)) b" by simp_all
      with attempt_events_projections(4) [of e "dest e" b]
      have "list_all (\<lambda>w. w = (Some e, dest e)) (write_dests b)" by simp
      then have h: "list_all (\<lambda>w. \<exists>x \<in> set (e # els). w = (Some x, dest x)) (write_dests b)"
        by (simp add: list_all_iff)
      from Cons.IH(3) [OF rest]
      have t: "list_all (\<lambda>w. \<exists>x \<in> set (e # els). w = (Some x, dest x))
           (write_dests (concat (map (\<lambda>(e, b). SetDestQ (dest e) # b) (zip els bs))))"
        by (auto simp: list_all_iff)
      from h t Cons show ?thesis by (simp add: write_dests_append)
    qed
  }
qed

text \<open>The loop that writes the aggregate element.\<close>

lemma post_write_loop_frame:
  "post_write_loop E qs outel successes s = (r, t) \<Longrightarrow>
   same_config s t \<and> errored t = errored s \<and> dest_q t = dest_q s \<and>
   (\<exists>evs. trace t = trace s @ evs \<and>
          list_all (post_event (map (\<lambda>q. fst (read_query E q) @ ''/'' @ stage_name s) qs)) evs)"
proof (induction qs arbitrary: successes s)
  case Nil
  then show ?case by (auto simp: same_config_def)
next
  case (Cons q qs)
  let ?dest = "fst (read_query E q) @ ''/'' @ stage_name s"
  obtain w d where wd: "write_element E ?dest outel (disk s) = (w, d)"
    by (cases "write_element E ?dest outel (disk s)")
  let ?ev = "WriteElement None ?dest outel (delete_local_on_write (disk s)) w"
  let ?s1 = "emit ?ev (s\<lparr>disk := d\<rparr>)"
  let ?dests = "map (\<lambda>q. fst (read_query E q) @ ''/'' @ stage_name s) (q # qs)"
  have s1: "same_config s ?s1" "errored ?s1 = errored s" "dest_q ?s1 = dest_q s"
    "trace ?s1 = trace s @ [?ev]" "stage_name ?s1 = stage_name s"
    by (simp_all add: emit_def same_config_def)
  show ?case
  proof (cases w)
    case (Inl ex)
    with Cons.prems wd have "t = ?s1" by (simp add: Let_def)
    moreover have "list_all (post_event ?dests) [?ev]" by simp
    ultimately show ?thesis using s1 by blast
  next
    case (Inr success)
    with Cons.prems wd have "post_write_loop E qs outel (successes @ [success]) ?s1 = (r, t)"
      by (simp add: Let_def)
    from Cons.IH [OF this] obtain evs where
      ih: "same_config ?s1 t" "errored t = errored ?s1" "dest_q t = dest_q ?s1"
        "trace t = trace ?s1 @ evs"
        "list_all (post_event (map (\<lambda>q. fst (read_query E q) @ ''/'' @ stage_name ?s1) qs)) evs"
      by blast
    have mono: "list_all (post_event ?dests) evs"
      using ih(5) unfolding s1(5) list_all_iff
    proof (intro ballI)
      fix ev assume a: "\<forall>x\<in>set evs. post_event (map (\<lambda>q. fst (read_query E q) @ ''/'' @ stage_name s) qs) x"
        and m: "ev \<in> set evs"
      then have "post_event (map (\<lambda>q. fst (read_query E q) @ ''/'' @ stage_name s) qs) ev" by blast
      then show "post_event ?dests ev" by (cases ev) simp_all
    qed
    have "trace t = trace s @ (?ev # evs)" using ih(4) s1(4) by simp
    moreover have "list_all (post_event ?dests) (?ev # evs)" using mono by simp
    moreover have "same_config s t" "errored t = errored s" "dest_q t = dest_q s"
      using ih s1 by (simp_all add: same_config_def)
    ultimately show ?thesis by blast
  qed
qed

text \<open>
  \<open>__post_analyse\<close>, however it ends: it first reads the elements under the current
  \<open>dest_q\<close>; what follows are writes of the aggregate element under the \<open>selector/name\<close>
  of an input query; \<open>errored\<close> and \<open>dest_q\<close> are as before.
\<close>

lemma do_post_analyse_frame:
  "same_config s (state_of (do_post_analyse E s)) \<and>
   errored (state_of (do_post_analyse E s)) = errored s \<and>
   (\<exists>evs. trace (state_of (do_post_analyse E s)) = trace s @ ReadElements [dest_q s] # evs \<and>
          list_all (post_event (map (\<lambda>q. fst (read_query E q) @ ''/'' @ stage_name s)
                                  (elements_in s))) evs)"
proof -
  obtain r d where rd: "read_elements E [get_dest_q s] (disk s) = (r, d)"
    by (cases "read_elements E [get_dest_q s] (disk s)")
  let ?s1 = "emit (ReadElements [get_dest_q s]) (s\<lparr>disk := d\<rparr>)"
  have s1: "same_config s ?s1" "errored ?s1 = errored s"
    "trace ?s1 = trace s @ [ReadElements [dest_q s]]"
    by (simp_all add: emit_def same_config_def get_dest_q_def)
  show ?thesis
  proof (cases r)
    case (Inl ex)
    with rd have "do_post_analyse E s = Raised ex ?s1" by (simp add: do_post_analyse_def Let_def)
    with s1 show ?thesis by simp
  next
    case (Inr analysed_els)
    obtain p u where pu: "post_analyse E analysed_els (user ?s1) = (p, u)"
      by (cases "post_analyse E analysed_els (user ?s1)")
    let ?s2 = "?s1\<lparr>user := u\<rparr>"
    have s2: "same_config s ?s2" "errored ?s2 = errored s"
      "trace ?s2 = trace s @ [ReadElements [dest_q s]]"
      "stage_name ?s2 = stage_name s" "elements_in ?s2 = elements_in s"
      by (simp_all add: emit_def same_config_def get_dest_q_def)
    have simple: "state_of (do_post_analyse E s) = ?s2 \<Longrightarrow> ?thesis"
      using s2 by simp
    show ?thesis
    proof (cases p)
      case (Inl ex)
      with rd Inr pu have "do_post_analyse E s = Raised ex ?s2"
        by (simp add: do_post_analyse_def Let_def)
      then show ?thesis by (intro simple) simp
    next
      case inr: (Inr out)
      show ?thesis
      proof (cases out)
        case None
        with rd Inr pu inr have "do_post_analyse E s = Returned ?s2"
          by (simp add: do_post_analyse_def Let_def)
        then show ?thesis by (intro simple) simp
      next
        case (Some outel)
        obtain w s3 where l: "post_write_loop E (elements_in ?s2) outel [] ?s2 = (w, s3)"
          by (cases "post_write_loop E (elements_in ?s2) outel [] ?s2")
        from post_write_loop_frame [OF l] obtain evs where
          f: "same_config ?s2 s3" "errored s3 = errored ?s2" "trace s3 = trace ?s2 @ evs"
            "list_all (post_event (map (\<lambda>q. fst (read_query E q) @ ''/'' @ stage_name ?s2)
                                     (elements_in ?s2))) evs"
          by blast
        have "state_of (do_post_analyse E s) = s3"
          using rd Inr pu inr Some l
          by (cases w) (simp_all add: do_post_analyse_def Let_def)
        moreover have "same_config s s3" "errored s3 = errored s"
          using f s2 by (simp_all add: same_config_def)
        moreover have "trace s3 = trace s @ ReadElements [dest_q s] # evs"
          using f(3) s2(3) by simp
        moreover have "list_all (post_event (map (\<lambda>q. fst (read_query E q) @ ''/'' @ stage_name s)
                                  (elements_in s))) evs"
          using f(4) by (simp only: s2(4) s2(5))
        ultimately show ?thesis by auto
      qed
    qed
  qed
qed

text \<open>
  A serial run that returns went through all of its phases: \<open>pre_analyse\<close> returned,
  \<open>read_elements\<close> gave at least one element, the loop over the elements and the post
  phase returned, and the last steps are the metadata record, unless \<open>errored\<close>, and the
  flushing of the logs.
\<close>

lemma start_analysing_returned:
  assumes "\<not> in_parallel s" and "start_analysing E s = Returned s'"
  shows "\<exists>u els d s2 s3.
           pre_analyse E (user s) = (None, u) \<and>
           read_elements E (elements_in s) (disk s) = (Inr els, d) \<and> els \<noteq> [] \<and>
           analyse E els
             (s\<lparr>user := u, disk := d,
                trace := trace s @ [Log ''Running analysis serially'',
                                    ReadElements (elements_in s)]\<rparr>) = Returned s2 \<and>
           do_post_analyse E s2 = Returned s3 \<and>
           s' = flush_logs
                  (if \<not> errored s3
                   then emit (WriteMeta (get_selector E s3 @ ''/'' @ stage_name s3) (stage_name s3)) s3
                   else s3)"
proof -
  let ?s0 = "logger ''Running analysis serially'' s"
  obtain p u where pu: "pre_analyse E (user s) = (p, u)" by (cases "pre_analyse E (user s)")
  have p: "p = None"
    using assms pu by (cases p) (simp_all add: start_analysing_def do_pre_analyse_def log_defs)
  let ?s1 = "?s0\<lparr>user := u\<rparr>"
  have pre: "do_pre_analyse E ?s0 = Returned ?s1"
    using pu p by (simp add: do_pre_analyse_def log_defs)
  obtain r d where rd: "read_elements E (elements_in s) (disk s) = (r, d)"
    by (cases "read_elements E (elements_in s) (disk s)")
  let ?s1' = "emit (ReadElements (elements_in s)) (?s1\<lparr>disk := d\<rparr>)"
  have an: "\<exists>s2. do_analyse E ?s1 = Returned s2"
    using assms pre
    by (cases "do_analyse E ?s1") (simp_all add: start_analysing_def Let_def)
  then obtain s2 where s2: "do_analyse E ?s1 = Returned s2" by blast
  have rd1: "read_elements E (elements_in ?s1) (disk ?s1) = (r, d)"
    using rd by (simp add: log_defs)
  obtain els where els: "r = Inr els" "els \<noteq> []"
    using s2 rd1 by (cases r) (auto simp: do_analyse_def Let_def split: if_splits)
  have a: "analyse E els ?s1' = Returned s2"
    using s2 rd1 els assms(1) by (simp add: do_analyse_def Let_def log_defs)
  have "\<exists>s3. do_post_analyse E s2 = Returned s3"
    using assms pre s2
    by (cases "do_post_analyse E s2") (simp_all add: start_analysing_def Let_def)
  then obtain s3 where s3: "do_post_analyse E s2 = Returned s3" by blast
  have fin: "s' = flush_logs
                  (if \<not> errored s3
                   then emit (WriteMeta (get_selector E s3 @ ''/'' @ stage_name s3) (stage_name s3)) s3
                   else s3)"
    using assms pre s2 s3 by (simp add: start_analysing_def Let_def)
  have "?s1' = s\<lparr>user := u, disk := d,
                trace := trace s @ [Log ''Running analysis serially'',
                                    ReadElements (elements_in s)]\<rparr>"
    by (simp add: log_defs)
  with a have "analyse E els
             (s\<lparr>user := u, disk := d,
                trace := trace s @ [Log ''Running analysis serially'',
                                    ReadElements (elements_in s)]\<rparr>) = Returned s2" by simp
  with pu p rd els s3 fin show ?thesis by blast
qed

lemma get_selector_loop_concat:
  "get_selector_loop E qs sel = sel @ concat (map (\<lambda>q. fst (read_query E q)) qs)"
  by (induction qs arbitrary: sel) simp_all

lemma get_selector_concat:
  "get_selector E s = concat (map (\<lambda>q. fst (read_query E q)) (elements_in s))"
  by (simp add: get_selector_def get_selector_loop_concat)

text \<open>After a batch, \<open>dest_q\<close> is the destination of the last element.\<close>

lemma analyse_dest_q_last:
  "analyse E els s = Returned t \<Longrightarrow> els \<noteq> [] \<Longrightarrow>
   dest_q t = fst (read_query E (query (last els))) @ ''/'' @ stage_name s"
proof (induction els arbitrary: s)
  case Nil
  then show ?case by simp
next
  case (Cons e els)
  let ?d = "fst (read_query E (query e)) @ ''/'' @ stage_name s"
  let ?s1 = "set_dest_q ?d s"
  obtain s2 where r1: "attempt_analyse E 5 e ?s1 = Returned s2"
    using Cons.prems(1) by (cases "attempt_analyse E 5 e ?s1") (simp_all add: Let_def)
  let ?s3 = "s2\<lparr>disk := (disk s2)\<lparr>delete_local_on_write := False\<rparr>\<rparr>"
  have r3: "analyse E els ?s3 = Returned t" using Cons.prems(1) r1 by (simp add: Let_def)
  from attempt_analyse_frame [of ?s1 E 5 e] r1
  have f: "dest_q s2 = ?d" "stage_name s2 = stage_name s"
    by (simp_all add: same_config_def set_dest_q_fields)
  show ?case
  proof (cases "els = []")
    case True
    with r3 f show ?thesis by auto
  next
    case False
    from Cons.IH [OF r3 False] f False show ?thesis by simp
  qed
qed

subsection \<open>Exhausted retries\<close>

text \<open>
  An attempt that cannot succeed: in the state in which it is made, the hook raises the
  should-retry error, or it produces an element and \<open>write_element\<close> returns false.
\<close>

lemma attempt_body_fails:
  assumes "(\<exists>m. fst (analyse_element E element (user t)) = Inl (ElementShouldRetryError m)) \<or>
           (\<exists>new. fst (analyse_element E element (user t)) = Inr (Some new) \<and>
                  fst (write_element E (dest_q t) new (disk t)) = Inr False)"
  shows "\<exists>m t1 evs. attempt_body E element t = (Some (ElementShouldRetryError m), t1) \<and>
           next_attempt E element t = error_logger m element t1 \<and>
           trace t1 = trace t @ evs \<and> count_list evs (AnalyseElement element) = 1 \<and>
           filter persists evs = []"
  using assms
proof
  assume "\<exists>m. fst (analyse_element E element (user t)) = Inl (ElementShouldRetryError m)"
  then obtain m where "fst (analyse_element E element (user t)) = Inl (ElementShouldRetryError m)"
    by blast
  from attempt_body_raised [OF this] show ?thesis by (simp add: next_attempt_def)
next
  assume "\<exists>new. fst (analyse_element E element (user t)) = Inr (Some new) \<and>
                  fst (write_element E (dest_q t) new (disk t)) = Inr False"
  then obtain new where a: "fst (analyse_element E element (user t)) = Inr (Some new)"
    and w: "fst (write_element E (dest_q t) new (disk t)) = Inr False" by blast
  obtain u where au: "analyse_element E element (user t) = (Inr (Some new), u)"
    using a by (cases "analyse_element E element (user t)") simp
  obtain d where wd: "write_element E (dest_q t) new (disk t) = (Inr False, d)"
    using w by (cases "write_element E (dest_q t) new (disk t)") simp
  show ?thesis
    using au wd
    by (simp add: next_attempt_def attempt_body_def get_dest_q_def Let_def emit_def)
qed

text \<open>
  \<open>n + 1\<close> attempts left, and each of the next \<open>n + 1\<close> attempts fails in the state that
  the attempts before it have left.
\<close>

lemma exhaust:
  assumes "\<forall>i<Suc n.
      (\<exists>m. fst (analyse_element E element (user ((next_attempt E element ^^ i) s)))
              = Inl (ElementShouldRetryError m)) \<or>
      (\<exists>new. fst (analyse_element E element (user ((next_attempt E element ^^ i) s)))
                = Inr (Some new) \<and>
             fst (write_element E (dest_q ((next_attempt E element ^^ i) s)) new
                    (disk ((next_attempt E element ^^ i) s))) = Inr False)"
  shows "\<exists>s' evs. attempt_analyse E (int (Suc n)) element s = Returned s' \<and>
           trace s' = trace s @ evs \<and>
           count_list evs (AnalyseElement element) = Suc n \<and>
           filter persists evs = [] \<and>
           last evs = ErrorLog ''failed after maximum retries - skipping element'' element \<and>
           errored s'"
  using assms
proof (induction n arbitrary: s)
  case 0
  from "0.prems" have "(\<exists>m. fst (analyse_element E element (user ((next_attempt E element ^^ 0) s)))
              = Inl (ElementShouldRetryError m)) \<or>
      (\<exists>new. fst (analyse_element E element (user ((next_attempt E element ^^ 0) s)))
                = Inr (Some new) \<and>
             fst (write_element E (dest_q ((next_attempt E element ^^ 0) s)) new
                    (disk ((next_attempt E element ^^ 0) s))) = Inr False)" by blast
  then have "(\<exists>m. fst (analyse_element E element (user s)) = Inl (ElementShouldRetryError m)) \<or>
      (\<exists>new. fst (analyse_element E element (user s)) = Inr (Some new) \<and>
             fst (write_element E (dest_q s) new (disk s)) = Inr False)" by simp
  from attempt_body_fails [OF this]
  obtain m s1 evs where b: "attempt_body E element s = (Some (ElementShouldRetryError m), s1)"
    and t: "trace s1 = trace s @ evs" "count_list evs (AnalyseElement element) = 1"
      "filter persists evs = []" by blast
  let ?fin = "ErrorLog ''failed after maximum retries - skipping element'' element"
  have "attempt_analyse E (int (Suc 0)) element s =
          Returned ((error_logger ''failed after maximum retries - skipping element'' element
                       (error_logger m element s1))\<lparr>errored := True\<rparr>)"
    using attempt_exhausted [OF b, of "int (Suc 0)"] by simp
  moreover have "trace ((error_logger ''failed after maximum retries - skipping element'' element
                       (error_logger m element s1))\<lparr>errored := True\<rparr>)
                 = trace s @ (evs @ [ErrorLog m element, ?fin])"
    using t by (simp add: error_logger_def emit_def)
  moreover have "count_list (evs @ [ErrorLog m element, ?fin]) (AnalyseElement element) = Suc 0"
    using t by simp
  moreover have "filter persists (evs @ [ErrorLog m element, ?fin]) = []" using t by simp
  moreover have "last (evs @ [ErrorLog m element, ?fin]) = ?fin" by simp
  moreover have "errored ((error_logger ''failed after maximum retries - skipping element'' element
                       (error_logger m element s1))\<lparr>errored := True\<rparr>)" by simp
  ultimately show ?case by blast
next
  case (Suc n)
  let ?fails = "\<lambda>t.
      (\<exists>m. fst (analyse_element E element (user t)) = Inl (ElementShouldRetryError m)) \<or>
      (\<exists>new. fst (analyse_element E element (user t)) = Inr (Some new) \<and>
             fst (write_element E (dest_q t) new (disk t)) = Inr False)"
  have all: "?fails ((next_attempt E element ^^ i) s)" if "i < Suc (Suc n)" for i
    using Suc.prems that by blast
  from all [of 0] have "?fails s" by simp
  from attempt_body_fails [OF this]
  obtain m s1 evs where b: "attempt_body E element s = (Some (ElementShouldRetryError m), s1)"
    and nx: "next_attempt E element s = error_logger m element s1"
    and t: "trace s1 = trace s @ evs" "count_list evs (AnalyseElement element) = 1"
      "filter persists evs = []" by blast
  let ?fin = "ErrorLog ''failed after maximum retries - skipping element'' element"
  let ?s2 = "error_logger m element s1"
  have step: "attempt_analyse E (int (Suc (Suc n))) element s =
              attempt_analyse E (int (Suc n)) element ?s2"
    using attempt_retry [OF b, of "int (Suc (Suc n))"] by simp
  have "\<forall>i<Suc n. ?fails ((next_attempt E element ^^ i) ?s2)"
  proof (intro allI impI)
    fix i assume "i < Suc n"
    then have "?fails ((next_attempt E element ^^ Suc i) s)" using all [of "Suc i"] by simp
    then show "?fails ((next_attempt E element ^^ i) ?s2)"
      by (simp only: funpow_Suc_right o_apply nx)
  qed
  from Suc.IH [OF this] obtain s' evs2 where
    r: "attempt_analyse E (int (Suc n)) element ?s2 = Returned s'"
    and t2: "trace s' = trace ?s2 @ evs2" "count_list evs2 (AnalyseElement element) = Suc n"
      "filter persists evs2 = []" "last evs2 = ?fin" and e: "errored s'" by blast
  have ne: "evs2 \<noteq> []" using t2(2) by auto
  have "trace s' = trace s @ (evs @ ErrorLog m element # evs2)"
    using t t2 by (simp add: error_logger_def emit_def)
  moreover have "count_list (evs @ ErrorLog m element # evs2) (AnalyseElement element) = Suc (Suc n)"
    using t t2 by simp
  moreover have "filter persists (evs @ ErrorLog m element # evs2) = []" using t t2 by simp
  moreover have "last (evs @ ErrorLog m element # evs2) = ?fin" using t2 ne by simp
  ultimately show ?case using step r e by metis
qed

text \<open>The first event of \<open>__attempt_analyse\<close> is the call of the hook.\<close>

lemma attempt_starts:
  "\<exists>evs. trace (state_of (attempt_analyse E n e t)) = trace t @ AnalyseElement e # evs"
proof -
  obtain r t1 where b: "attempt_body E e t = (r, t1)" by (cases "attempt_body E e t")
  have "\<exists>evs. trace t1 = trace t @ AnalyseElement e # evs"
    using b
    by (auto simp: attempt_body_def emit_def Let_def
             split: prod.splits sum.splits option.splits if_splits)
  then obtain evs1 where t1: "trace t1 = trace t @ AnalyseElement e # evs1" by blast
  have "\<exists>evs. trace (state_of (attempt_analyse E n e t)) = trace t1 @ evs"
  proof (cases r)
    case None
    with b show ?thesis by (simp add: attempt_returned)
  next
    case (Some ex)
    show ?thesis
    proof (cases ex)
      case (ElementShouldSkipError m)
      with Some b show ?thesis by (simp add: attempt_skip error_logger_def emit_def)
    next
      case (ElementShouldRetryError m)
      with Some b have b': "attempt_body E e t = (Some (ElementShouldRetryError m), t1)" by simp
      show ?thesis
      proof (cases "1 < n")
        case True
        from attempt_analyse_frame [of "error_logger m e t1" E "n - 1" e]
        obtain evs where "trace (state_of (attempt_analyse E (n - 1) e (error_logger m e t1)))
            = trace (error_logger m e t1) @ evs" by blast
        then have "trace (state_of (attempt_analyse E (n - 1) e (error_logger m e t1)))
            = trace t1 @ (ErrorLog m e # evs)" by (simp add: error_logger_def emit_def)
        then show ?thesis using attempt_retry [OF b' True] by auto
      next
        case False
        show ?thesis
          using attempt_exhausted [OF b' False] by (simp add: error_logger_def emit_def)
      qed
    next
      case (InvalidAnalyserElements m)
      with Some b have b': "attempt_body E e t = (Some ex, t1)" by simp
      show ?thesis
        using attempt_other [OF b', of n] InvalidAnalyserElements
        by (simp add: error_logger_def emit_def)
    next
      case (OtherException m)
      with Some b have b': "attempt_body E e t = (Some ex, t1)" by simp
      show ?thesis
        using attempt_other [OF b', of n] OtherException
        by (simp add: error_logger_def emit_def)
    qed
  qed
  then obtain evs where "trace (state_of (attempt_analyse E n e t)) = trace t1 @ evs" by blast
  with t1 have "trace (state_of (attempt_analyse E n e t)) = trace t @ AnalyseElement e # (evs1 @ evs)"
    by simp
  then show ?thesis by blast
qed

text \<open>
  The first two events of a batch: the destination of its first element is assigned and
  the hook is called on that element.
\<close>

lemma analyse_starts:
  "\<exists>evs. trace (state_of (analyse E (nxt # others) t)) =
     trace t @ SetDestQ (fst (read_query E (query nxt)) @ ''/'' @ stage_name t) #
               AnalyseElement nxt # evs"
proof -
  let ?d = "fst (read_query E (query nxt)) @ ''/'' @ stage_name t"
  let ?s1 = "set_dest_q ?d t"
  from attempt_starts [of E 5 nxt ?s1] obtain evs1 where
    a: "trace (state_of (attempt_analyse E 5 nxt ?s1)) = trace t @ SetDestQ ?d # AnalyseElement nxt # evs1"
    by (auto simp: set_dest_q_fields)
  show ?thesis
  proof (cases "attempt_analyse E 5 nxt ?s1")
    case (Raised ex s2)
    then have "analyse E (nxt # others) t = Raised ex s2" by (simp add: Let_def)
    with a Raised show ?thesis by simp
  next
    case (Returned s2)
    let ?s3 = "s2\<lparr>disk := (disk s2)\<lparr>delete_local_on_write := False\<rparr>\<rparr>"
    from Returned have r: "analyse E (nxt # others) t = analyse E others ?s3" by (simp add: Let_def)
    from analyse_trace [of ?s3 "stage_name ?s3" others E] obtain evs2 where
      "trace (state_of (analyse E others ?s3)) = trace ?s3 @ evs2" by blast
    with a Returned r
    have "trace (state_of (analyse E (nxt # others) t)) =
            trace t @ SetDestQ ?d # AnalyseElement nxt # (evs1 @ evs2)" by simp
    then show ?thesis by blast
  qed
qed

text \<open>
  C1. Take an element of a batch and the state \<open>s0\<close> in which the loop of \<open>analyse\<close>
  calls \<open>__attempt_analyse(5, element)\<close> for it, and suppose that each of the five
  attempts, made in the state that the attempts before it have left, fails: the hook
  raises the should-retry error, or it produces an element and \<open>write_element\<close> returns
  false. Then the call returns normally; the events \<open>evs\<close> it adds hold exactly five
  calls of the hook on the element and no write that stored anything, and they end with
  the error line about the exhausted retries; \<open>errored\<close> is true afterwards. The loop
  goes on from that state with the remaining elements: the batch ends \<open>errored\<close>, its
  trace is the assignment of the element's destination, then \<open>evs\<close>, then the events of
  the remaining elements, and when there is a next element these begin with the
  assignment of its destination and the call of the hook on it.
\<close>

theorem retries_exhausted:
  assumes "s0 = set_dest_q (fst (read_query E (query element)) @ ''/'' @ stage_name s) s"
    and "\<forall>i<5.
      (\<exists>m. fst (analyse_element E element (user ((next_attempt E element ^^ i) s0)))
              = Inl (ElementShouldRetryError m)) \<or>
      (\<exists>new. fst (analyse_element E element (user ((next_attempt E element ^^ i) s0)))
                = Inr (Some new) \<and>
             fst (write_element E (dest_q ((next_attempt E element ^^ i) s0)) new
                    (disk ((next_attempt E element ^^ i) s0))) = Inr False)"
  shows "\<exists>s' evs evs'.
           attempt_analyse E 5 element s0 = Returned s' \<and>
           trace s' = trace s @ SetDestQ (fst (read_query E (query element)) @ ''/'' @ stage_name s) # evs \<and>
           count_list evs (AnalyseElement element) = 5 \<and>
           filter persists evs = [] \<and>
           last evs = ErrorLog ''failed after maximum retries - skipping element'' element \<and>
           errored s' \<and>
           analyse E (element # rest) s =
             analyse E rest (s'\<lparr>disk := (disk s')\<lparr>delete_local_on_write := False\<rparr>\<rparr>) \<and>
           errored (state_of (analyse E (element # rest) s)) \<and>
           trace (state_of (analyse E (element # rest) s)) =
             trace s @ SetDestQ (fst (read_query E (query element)) @ ''/'' @ stage_name s) # evs @ evs' \<and>
           (\<forall>nxt others. rest = nxt # others \<longrightarrow>
              (\<exists>evs''. evs' = SetDestQ (fst (read_query E (query nxt)) @ ''/'' @ stage_name s) #
                                AnalyseElement nxt # evs''))"
proof -
  let ?d = "fst (read_query E (query element)) @ ''/'' @ stage_name s"
  have five: "int (Suc 4) = 5" "(5::nat) = Suc 4" by simp_all
  from exhaust [of 4 E element s0] assms(2) obtain s' evs where
    r: "attempt_analyse E 5 element s0 = Returned s'"
    and t: "trace s' = trace s0 @ evs" "count_list evs (AnalyseElement element) = 5"
      "filter persists evs = []"
      "last evs = ErrorLog ''failed after maximum retries - skipping element'' element"
    and e: "errored s'"
    unfolding five by auto
  have t0: "trace s' = trace s @ SetDestQ ?d # evs"
    using t(1) assms(1) by (simp add: set_dest_q_fields)
  have nm: "stage_name s' = stage_name s"
    using attempt_analyse_frame [of s0 E 5 element] r assms(1)
    by (simp add: same_config_def set_dest_q_fields)
  let ?s3 = "s'\<lparr>disk := (disk s')\<lparr>delete_local_on_write := False\<rparr>\<rparr>"
  have loop: "analyse E (element # rest) s = analyse E rest ?s3"
    using r assms(1) by (simp add: Let_def)
  from analyse_trace [of ?s3 "stage_name ?s3" rest E] obtain evs' where
    t3: "trace (state_of (analyse E rest ?s3)) = trace ?s3 @ evs'"
    and e3: "errored ?s3 \<longrightarrow> errored (state_of (analyse E rest ?s3))" by blast
  have e4: "errored (state_of (analyse E (element # rest) s))" using e e3 loop by simp
  have t4: "trace (state_of (analyse E (element # rest) s)) = trace s @ SetDestQ ?d # evs @ evs'"
    using t3 t0 loop by simp
  have nx: "\<exists>evs''. evs' = SetDestQ (fst (read_query E (query nxt)) @ ''/'' @ stage_name s) #
                                AnalyseElement nxt # evs''"
    if "rest = nxt # others" for nxt others
  proof -
    from analyse_starts [of E nxt others ?s3] obtain evs'' where
      "trace (state_of (analyse E (nxt # others) ?s3)) =
         trace ?s3 @ SetDestQ (fst (read_query E (query nxt)) @ ''/'' @ stage_name ?s3) #
                     AnalyseElement nxt # evs''" by blast
    with t3 that nm have "evs' = SetDestQ (fst (read_query E (query nxt)) @ ''/'' @ stage_name s) #
                                AnalyseElement nxt # evs''" by simp
    then show ?thesis by blast
  qed
  from r t0 t(2,3,4) e loop e4 t4 nx show ?thesis by blast
qed

theorem retries_exhausted_witness:
  "fst (analyse_element demo_env_stubborn (el ''stubborn'' ''selA'') 7)
     = Inr (Some (el ''stubborn'' ''selA'')) \<and>
   (\<exists>s' evs evs''.
      attempt_analyse demo_env_stubborn 5 (el ''stubborn'' ''selA'')
        (set_dest_q ''selA/an'' (demo_analyser [''selA''] False [])) = Returned s' \<and>
      trace s' = SetDestQ ''selA/an'' # evs \<and>
      count_list evs (AnalyseElement (el ''stubborn'' ''selA'')) = 5 \<and>
      filter persists evs = [] \<and>
      last evs = ErrorLog ''failed after maximum retries - skipping element''
                   (el ''stubborn'' ''selA'') \<and>
      errored s' \<and>
      errored (state_of (analyse demo_env_stubborn [el ''stubborn'' ''selA'', el ''a'' ''selA'']
                 (demo_analyser [''selA''] False []))) \<and>
      trace (state_of (analyse demo_env_stubborn [el ''stubborn'' ''selA'', el ''a'' ''selA'']
               (demo_analyser [''selA''] False []))) =
        SetDestQ ''selA/an'' # evs @
        SetDestQ ''selA/an'' # AnalyseElement (el ''a'' ''selA'') # evs'')"
proof -
  let ?s = "demo_analyser [''selA''] False []"
  let ?e = "el ''stubborn'' ''selA''"
  let ?start = "set_dest_q ''selA/an'' ?s"
  have h0: "?start = set_dest_q (fst (read_query demo_env_stubborn (query ?e)) @ ''/'' @ stage_name ?s) ?s"
    by (simp add: demo_defs)
  have small: "i = 0 \<or> i = Suc 0 \<or> i = Suc (Suc 0) \<or> i = Suc (Suc (Suc 0)) \<or>
               i = Suc (Suc (Suc (Suc 0)))" if "i < 5" for i :: nat
    using that by arith
  have st: "(next_attempt demo_env_stubborn ?e ^^ i) ?start =
      ?s\<lparr>dest_q := ''selA/an'', user := i,
          trace := SetDestQ ''selA/an'' #
            concat (replicate i [AnalyseElement ?e, ErrorLog ''busy'' ?e])\<rparr>" if "i < 5" for i
    using small [OF that]
    by (auto simp: next_attempt_def attempt_body_def set_dest_q_def log_defs demo_defs)
  have h: "\<forall>i<5.
      (\<exists>m. fst (analyse_element demo_env_stubborn ?e
                  (user ((next_attempt demo_env_stubborn ?e ^^ i) ?start)))
              = Inl (ElementShouldRetryError m)) \<or>
      (\<exists>new. fst (analyse_element demo_env_stubborn ?e
                    (user ((next_attempt demo_env_stubborn ?e ^^ i) ?start)))
                = Inr (Some new) \<and>
             fst (write_element demo_env_stubborn
                    (dest_q ((next_attempt demo_env_stubborn ?e ^^ i) ?start)) new
                    (disk ((next_attempt demo_env_stubborn ?e ^^ i) ?start))) = Inr False)"
  proof (intro allI impI)
    fix i :: nat assume i: "i < 5"
    then have "fst (analyse_element demo_env_stubborn ?e
                  (user ((next_attempt demo_env_stubborn ?e ^^ i) ?start)))
              = Inl (ElementShouldRetryError ''busy'')"
      unfolding st [OF i] by (simp add: demo_defs)
    then show "(\<exists>m. fst (analyse_element demo_env_stubborn ?e
                  (user ((next_attempt demo_env_stubborn ?e ^^ i) ?start)))
              = Inl (ElementShouldRetryError m)) \<or>
      (\<exists>new. fst (analyse_element demo_env_stubborn ?e
                    (user ((next_attempt demo_env_stubborn ?e ^^ i) ?start)))
                = Inr (Some new) \<and>
             fst (write_element demo_env_stubborn
                    (dest_q ((next_attempt demo_env_stubborn ?e ^^ i) ?start)) new
                    (disk ((next_attempt demo_env_stubborn ?e ^^ i) ?start))) = Inr False)"
      by blast
  qed
  from retries_exhausted [OF h0 h, of "[el ''a'' ''selA'']"] obtain s' evs evs' where
    r: "attempt_analyse demo_env_stubborn 5 ?e ?start = Returned s'"
    and t: "trace s' = trace ?s @ SetDestQ (fst (read_query demo_env_stubborn (query ?e)) @ ''/'' @ stage_name ?s) # evs"
      "count_list evs (AnalyseElement ?e) = 5" "filter persists evs = []"
      "last evs = ErrorLog ''failed after maximum retries - skipping element'' ?e"
    and e: "errored s'"
      "errored (state_of (analyse demo_env_stubborn [?e, el ''a'' ''selA''] ?s))"
    and t4: "trace (state_of (analyse demo_env_stubborn [?e, el ''a'' ''selA''] ?s)) =
        trace ?s @ SetDestQ (fst (read_query demo_env_stubborn (query ?e)) @ ''/'' @ stage_name ?s) # evs @ evs'"
    and nx: "\<forall>nxt others. [el ''a'' ''selA''] = nxt # others \<longrightarrow>
              (\<exists>evs''. evs' = SetDestQ (fst (read_query demo_env_stubborn (query nxt)) @ ''/'' @ stage_name ?s) #
                                AnalyseElement nxt # evs'')"
    by blast
  from nx obtain evs'' where
    n: "evs' = SetDestQ (fst (read_query demo_env_stubborn (query (el ''a'' ''selA''))) @ ''/'' @ stage_name ?s) #
                 AnalyseElement (el ''a'' ''selA'') # evs''" by blast
  have d: "fst (read_query demo_env_stubborn (query ?e)) @ ''/'' @ stage_name ?s = ''selA/an''"
    "fst (read_query demo_env_stubborn (query (el ''a'' ''selA''))) @ ''/'' @ stage_name ?s = ''selA/an''"
    "trace ?s = []"
    by (simp_all add: demo_defs)
  have t': "trace s' = SetDestQ ''selA/an'' # evs" using t(1) unfolding d by simp
  have t4': "trace (state_of (analyse demo_env_stubborn [?e, el ''a'' ''selA''] ?s)) =
        SetDestQ ''selA/an'' # evs @ SetDestQ ''selA/an'' # AnalyseElement (el ''a'' ''selA'') # evs''"
    using t4 n unfolding d by simp
  have ok: "fst (analyse_element demo_env_stubborn ?e 7) = Inr (Some ?e)"
    by (simp add: demo_defs)
  from ok r t' t(2,3,4) e t4' show ?thesis by blast
qed

subsection \<open>The whole run\<close>

text \<open>A batch is processed front to back: its first part, then the rest from the state reached.\<close>

lemma analyse_append:
  "analyse E (xs @ ys) s =
     (case analyse E xs s of Raised e t \<Rightarrow> Raised e t | Returned t \<Rightarrow> analyse E ys t)"
  by (induction xs arbitrary: s) (simp_all add: Let_def split: outcome.splits)

text \<open>
  An element of a batch whose five attempts all fail, each in the state that the elements
  before it and its own earlier attempts have left, leaves the batch marked \<open>errored\<close>.
\<close>

lemma analyse_marks_errored:
  assumes "analyse E (before @ element # after) s = Returned t"
    and "\<forall>i<5.
      (\<exists>m. fst (analyse_element E element (user ((next_attempt E element ^^ i)
                (set_dest_q (fst (read_query E (query element)) @ ''/'' @ stage_name s)
                   (state_of (analyse E before s))))))
              = Inl (ElementShouldRetryError m)) \<or>
      (\<exists>new. fst (analyse_element E element (user ((next_attempt E element ^^ i)
                (set_dest_q (fst (read_query E (query element)) @ ''/'' @ stage_name s)
                   (state_of (analyse E before s))))))
                = Inr (Some new) \<and>
             fst (write_element E (dest_q ((next_attempt E element ^^ i)
                (set_dest_q (fst (read_query E (query element)) @ ''/'' @ stage_name s)
                   (state_of (analyse E before s))))) new
                    (disk ((next_attempt E element ^^ i)
                (set_dest_q (fst (read_query E (query element)) @ ''/'' @ stage_name s)
                   (state_of (analyse E before s)))))) = Inr False)"
  shows "errored t"
proof -
  obtain sb where b: "analyse E before s = Returned sb"
    and r: "analyse E (element # after) sb = Returned t"
    using assms(1) by (cases "analyse E before s") (simp_all add: analyse_append)
  have nm: "stage_name sb = stage_name s"
    using analyse_trace [of s "stage_name s" before E] b by (auto simp: same_config_def)
  let ?s0 = "set_dest_q (fst (read_query E (query element)) @ ''/'' @ stage_name sb) sb"
  have five: "int (Suc 4) = 5" "(5::nat) = Suc 4" by simp_all
  from exhaust [of 4 E element ?s0] assms(2) obtain s' where
    a: "attempt_analyse E 5 element ?s0 = Returned s'" and e: "errored s'"
    unfolding five b nm by auto
  let ?s3 = "s'\<lparr>disk := (disk s')\<lparr>delete_local_on_write := False\<rparr>\<rparr>"
  have "analyse E after ?s3 = Returned t" using r a by (simp add: Let_def)
  moreover from analyse_trace [of ?s3 "stage_name ?s3" after E]
  have "errored ?s3 \<longrightarrow> errored (state_of (analyse E after ?s3))" by blast
  ultimately show ?thesis using e by simp
qed

lemma write_calls_append: "write_calls (xs @ ys) = write_calls xs @ write_calls ys"
  by (induction xs rule: write_calls.induct) simp_all

text \<open>The loop of \<open>__post_analyse\<close> only adds to the list of results it is given.\<close>

lemma post_write_loop_prefix:
  "post_write_loop E qs outel successes s = (Inr res, t) \<Longrightarrow> \<exists>added. res = successes @ added"
proof (induction qs arbitrary: successes s)
  case Nil
  then show ?case by simp
next
  case (Cons q qs)
  let ?dest = "fst (read_query E q) @ ''/'' @ stage_name s"
  obtain w d where wd: "write_element E ?dest outel (disk s) = (w, d)"
    by (cases "write_element E ?dest outel (disk s)")
  show ?case
  proof (cases w)
    case (Inl ex)
    with Cons.prems wd show ?thesis by (simp add: Let_def)
  next
    case (Inr success)
    with Cons.prems wd obtain s1 where
      "post_write_loop E qs outel (successes @ [success]) s1 = (Inr res, t)"
      by (simp add: Let_def)
    from Cons.IH [OF this] show ?thesis by auto
  qed
qed

text \<open>
  When the loop ends with all results true, it has written the aggregate element once
  under the \<open>selector/name\<close> of every input query, in the order of the queries.
\<close>

lemma post_write_loop_all:
  "post_write_loop E qs outel successes s = (Inr res, t) \<Longrightarrow> list_all (\<lambda>b. b) res \<Longrightarrow>
   trace t = trace s @ evs \<Longrightarrow>
   write_calls evs =
     map (\<lambda>q. (None, fst (read_query E q) @ ''/'' @ stage_name s, outel, Inr True)) qs"
proof (induction qs arbitrary: successes s evs)
  case Nil
  then show ?case by simp
next
  case (Cons q qs)
  let ?dest = "fst (read_query E q) @ ''/'' @ stage_name s"
  obtain w d where wd: "write_element E ?dest outel (disk s) = (w, d)"
    by (cases "write_element E ?dest outel (disk s)")
  let ?ev = "WriteElement None ?dest outel (delete_local_on_write (disk s)) w"
  let ?s1 = "emit ?ev (s\<lparr>disk := d\<rparr>)"
  show ?case
  proof (cases w)
    case (Inl ex)
    with Cons.prems(1) wd show ?thesis by (simp add: Let_def)
  next
    case (Inr success)
    with Cons.prems(1) wd have l: "post_write_loop E qs outel (successes @ [success]) ?s1 = (Inr res, t)"
      by (simp add: Let_def)
    from post_write_loop_prefix [OF l] Cons.prems(2) have s: "success" by auto
    from post_write_loop_frame [OF l] obtain evs2 where t2: "trace t = trace ?s1 @ evs2" by blast
    then have "trace t = trace s @ ?ev # evs2" by (simp add: emit_def)
    with Cons.prems(3) have evs: "evs = ?ev # evs2" by simp
    have nm: "stage_name ?s1 = stage_name s" by (simp add: emit_def)
    from Cons.IH [OF l Cons.prems(2) t2]
    have "write_calls evs2 =
       map (\<lambda>q. (None, fst (read_query E q) @ ''/'' @ stage_name s, outel, Inr True)) qs"
      by (simp only: nm)
    with evs Inr s show ?thesis by simp
  qed
qed

text \<open>
  \<open>__post_analyse\<close> when it returns: the read under \<open>dest_q\<close> gave the elements, the hook
  returned; if it produced no aggregate element nothing is written, otherwise the
  aggregate element was written under the \<open>selector/name\<close> of every input query and
  every one of these writes returned true.
\<close>

lemma do_post_analyse_returned:
  assumes "do_post_analyse E s = Returned t"
  shows "\<exists>analysed agg pevs.
           fst (read_elements E [dest_q s] (disk s)) = Inr analysed \<and>
           fst (post_analyse E analysed (user s)) = Inr agg \<and>
           trace t = trace s @ ReadElements [dest_q s] # pevs \<and>
           list_all (post_event (map (\<lambda>q. fst (read_query E q) @ ''/'' @ stage_name s)
                                   (elements_in s))) pevs \<and>
           write_calls pevs =
             (case agg of None \<Rightarrow> []
              | Some outel \<Rightarrow>
                  map (\<lambda>q. (None, fst (read_query E q) @ ''/'' @ stage_name s, outel, Inr True))
                    (elements_in s)) \<and>
           same_config s t \<and> errored t = errored s"
proof -
  from do_post_analyse_frame [of s E] assms obtain pevs where
    f: "same_config s t" "errored t = errored s"
      "trace t = trace s @ ReadElements [dest_q s] # pevs"
      "list_all (post_event (map (\<lambda>q. fst (read_query E q) @ ''/'' @ stage_name s)
                                   (elements_in s))) pevs"
    by auto
  obtain r d where rd: "read_elements E [get_dest_q s] (disk s) = (r, d)"
    by (cases "read_elements E [get_dest_q s] (disk s)")
  let ?s1 = "emit (ReadElements [get_dest_q s]) (s\<lparr>disk := d\<rparr>)"
  obtain analysed where an: "r = Inr analysed"
    using assms rd by (cases r) (simp_all add: do_post_analyse_def Let_def)
  obtain p u where pu: "post_analyse E analysed (user ?s1) = (p, u)"
    by (cases "post_analyse E analysed (user ?s1)")
  let ?s2 = "?s1\<lparr>user := u\<rparr>"
  obtain agg where ag: "p = Inr agg"
    using assms rd an pu by (cases p) (simp_all add: do_post_analyse_def Let_def)
  have s2: "trace ?s2 = trace s @ [ReadElements [dest_q s]]" "stage_name ?s2 = stage_name s"
    "elements_in ?s2 = elements_in s"
    by (simp_all add: emit_def get_dest_q_def)
  have w: "write_calls pevs =
             (case agg of None \<Rightarrow> []
              | Some outel \<Rightarrow>
                  map (\<lambda>q. (None, fst (read_query E q) @ ''/'' @ stage_name s, outel, Inr True))
                    (elements_in s))"
  proof (cases agg)
    case None
    with assms rd an pu ag have "t = ?s2" by (simp add: do_post_analyse_def Let_def)
    with f(3) s2(1) have "pevs = []" by simp
    with None show ?thesis by simp
  next
    case (Some outel)
    obtain x s3 where l: "post_write_loop E (elements_in ?s2) outel [] ?s2 = (x, s3)"
      by (cases "post_write_loop E (elements_in ?s2) outel [] ?s2")
    obtain successes where x: "x = Inr successes"
      using assms rd an pu ag Some l by (cases x) (simp_all add: do_post_analyse_def Let_def)
    have ok: "list_all (\<lambda>b. b) successes" and t: "t = s3"
      using assms rd an pu ag Some l x
      by (simp_all add: do_post_analyse_def Let_def split: if_splits)
    have "trace s3 = trace ?s2 @ pevs" using f(3) s2(1) t by simp
    from post_write_loop_all [OF l [unfolded x] ok this]
    have "write_calls pevs =
        map (\<lambda>q. (None, fst (read_query E q) @ ''/'' @ stage_name s, outel, Inr True)) (elements_in s)"
      by (simp only: s2)
    with Some show ?thesis by simp
  qed
  have "fst (read_elements E [dest_q s] (disk s)) = Inr analysed"
    using rd an by (simp add: get_dest_q_def)
  moreover have "fst (post_analyse E analysed (user s)) = Inr agg"
    using pu ag by (simp add: emit_def)
  ultimately show ?thesis using f w by blast
qed

text \<open>
  The trace of a serial run that returns, from its first event to its last: the first
  log line, the read of the input queries, for every element the assignment of its
  destination and the events of its attempts, the read of the post phase under the
  destination of the last element, the writes of the aggregate element if the hook of
  the post phase produced one, the metadata record unless the run is \<open>errored\<close>, the
  flushing of the logs.
\<close>

lemma serial_run_trace:
  assumes "\<not> in_parallel s" and "start_analysing E s = Returned s'"
  shows "\<exists>u els d s2 blocks analysed agg pevs.
           pre_analyse E (user s) = (None, u) \<and>
           read_elements E (elements_in s) (disk s) = (Inr els, d) \<and> els \<noteq> [] \<and>
           analyse E els
             (s\<lparr>user := u, disk := d,
                trace := trace s @ [Log ''Running analysis serially'',
                                    ReadElements (elements_in s)]\<rparr>) = Returned s2 \<and>
           errored s' = errored s2 \<and>
           length blocks = length els \<and>
           (\<forall>(e, b) \<in> set (zip els blocks).
              list_all (attempt_event e (fst (read_query E (query e)) @ ''/'' @ stage_name s)) b) \<and>
           fst (read_elements E [fst (read_query E (query (last els))) @ ''/'' @ stage_name s]
                  (disk s2)) = Inr analysed \<and>
           fst (post_analyse E analysed (user s2)) = Inr agg \<and>
           list_all (post_event (map (\<lambda>q. fst (read_query E q) @ ''/'' @ stage_name s)
                                   (elements_in s))) pevs \<and>
           write_calls pevs =
             (case agg of None \<Rightarrow> []
              | Some outel \<Rightarrow>
                  map (\<lambda>q. (None, fst (read_query E q) @ ''/'' @ stage_name s, outel, Inr True))
                    (elements_in s)) \<and>
           trace s' = trace s @
             [Log ''Running analysis serially'', ReadElements (elements_in s)] @
             concat (map (\<lambda>(e, b). SetDestQ (fst (read_query E (query e)) @ ''/'' @ stage_name s) # b)
                       (zip els blocks)) @
             ReadElements [fst (read_query E (query (last els))) @ ''/'' @ stage_name s] # pevs @
             (if errored s' then []
              else [WriteMeta (concat (map (\<lambda>q. fst (read_query E q)) (elements_in s)) @ ''/'' @ stage_name s)
                      (stage_name s)]) @
             [FlushLogs]"
proof -
  from start_analysing_returned [OF assms] obtain u els d s2 s3 where
    pre: "pre_analyse E (user s) = (None, u)"
    and rd: "read_elements E (elements_in s) (disk s) = (Inr els, d)" "els \<noteq> []"
    and an: "analyse E els
             (s\<lparr>user := u, disk := d,
                trace := trace s @ [Log ''Running analysis serially'',
                                    ReadElements (elements_in s)]\<rparr>) = Returned s2"
    and post: "do_post_analyse E s2 = Returned s3"
    and fin: "s' = flush_logs
                  (if \<not> errored s3
                   then emit (WriteMeta (get_selector E s3 @ ''/'' @ stage_name s3) (stage_name s3)) s3
                   else s3)"
    by blast
  let ?sa = "s\<lparr>user := u, disk := d,
                trace := trace s @ [Log ''Running analysis serially'',
                                    ReadElements (elements_in s)]\<rparr>"
  let ?dest = "\<lambda>e. fst (read_query E (query e)) @ ''/'' @ stage_name s"
  let ?blk = "\<lambda>(e, b). SetDestQ (?dest e) # b"
  have nm: "stage_name ?sa = stage_name s" by simp
  from analyse_trace [OF nm, of els E] an obtain blocks where
    len: "length blocks = length els"
    and tr2: "trace s2 = trace ?sa @ concat (map ?blk (zip els blocks))"
    and ev2: "\<forall>(e, b) \<in> set (zip els blocks). list_all (attempt_event e (?dest e)) b"
    and cfg2: "same_config ?sa s2"
    by auto
  have c2: "stage_name s2 = stage_name s" "elements_in s2 = elements_in s"
    using cfg2 by (simp_all add: same_config_def)
  have dq: "dest_q s2 = ?dest (last els)"
    using analyse_dest_q_last [OF an rd(2)] by simp
  from do_post_analyse_returned [OF post] obtain analysed agg pevs where
    rd3: "fst (read_elements E [dest_q s2] (disk s2)) = Inr analysed"
    and pa3: "fst (post_analyse E analysed (user s2)) = Inr agg"
    and tr3: "trace s3 = trace s2 @ ReadElements [dest_q s2] # pevs"
    and ev3: "list_all (post_event (map (\<lambda>q. fst (read_query E q) @ ''/'' @ stage_name s2)
                                  (elements_in s2))) pevs"
    and wc3: "write_calls pevs =
             (case agg of None \<Rightarrow> []
              | Some outel \<Rightarrow>
                  map (\<lambda>q. (None, fst (read_query E q) @ ''/'' @ stage_name s2, outel, Inr True))
                    (elements_in s2))"
    and cfg3: "same_config s2 s3" and e3: "errored s3 = errored s2"
    by blast
  have c3: "stage_name s3 = stage_name s" "elements_in s3 = elements_in s"
    using cfg3 c2 by (simp_all add: same_config_def)
  have sel: "get_selector E s3 = concat (map (\<lambda>q. fst (read_query E q)) (elements_in s))"
    by (simp add: get_selector_concat c3)
  have e': "errored s' = errored s2" using fin e3 by (simp add: log_defs)
  have "trace s' = trace s3 @
      (if errored s' then []
       else [WriteMeta (concat (map (\<lambda>q. fst (read_query E q)) (elements_in s)) @ ''/'' @ stage_name s)
               (stage_name s)]) @ [FlushLogs]"
    using fin e3 e' sel c3 by (simp add: log_defs)
  then have tr: "trace s' = trace s @
             [Log ''Running analysis serially'', ReadElements (elements_in s)] @
             concat (map ?blk (zip els blocks)) @
             ReadElements [?dest (last els)] # pevs @
             (if errored s' then []
              else [WriteMeta (concat (map (\<lambda>q. fst (read_query E q)) (elements_in s)) @ ''/'' @ stage_name s)
                      (stage_name s)]) @
             [FlushLogs]"
    using tr3 tr2 dq by simp
  have ev: "list_all (post_event (map (\<lambda>q. fst (read_query E q) @ ''/'' @ stage_name s)
                                   (elements_in s))) pevs"
    using ev3 by (simp only: c2)
  have wc: "write_calls pevs =
             (case agg of None \<Rightarrow> []
              | Some outel \<Rightarrow>
                  map (\<lambda>q. (None, fst (read_query E q) @ ''/'' @ stage_name s, outel, Inr True))
                    (elements_in s))"
    using wc3 by (simp only: c2)
  have rd': "fst (read_elements E [?dest (last els)] (disk s2)) = Inr analysed"
    using rd3 by (simp only: dq)
  from pre rd an e' len ev2 rd' pa3 ev wc tr show ?thesis by blast
qed

subsection \<open>The metadata record\<close>

text \<open>
  C2, as the code has it. A serial run that completes writes its metadata record exactly
  when \<open>errored\<close> is false at the end, and then it writes one record, under
  \<open>get_selector()/name\<close>. A run in which some element has exhausted its retries is
  \<open>errored\<close> at the end: take any element of the input, with the elements \<open>before\<close> it
  and \<open>after\<close> it, and suppose that each of its five attempts, made in the state that
  the elements before it and its own earlier attempts have left, fails (the hook raises
  the should-retry error, or it produces an element and \<open>write_element\<close> returns false);
  then the run, if it completes, is \<open>errored\<close> and so has written no metadata record,
  whatever the other elements have written.
\<close>

theorem metadata_unless_errored:
  assumes "\<not> in_parallel s" and "start_analysing E s = Returned s'"
  shows "(\<exists>evs. trace s' = trace s @ evs \<and>
            meta_paths evs =
              (if errored s' then [] else [get_selector E s @ ''/'' @ stage_name s])) \<and>
         (\<forall>before element after.
            fst (read_elements E (elements_in s) (disk s)) = Inr (before @ element # after) \<and>
            (\<forall>i<5.
               (\<exists>m. fst (analyse_element E element (user ((next_attempt E element ^^ i)
                  (set_dest_q (fst (read_query E (query element)) @ ''/'' @ stage_name s)
                     (state_of (analyse E before
                        (s\<lparr>user := snd (pre_analyse E (user s)),
                           disk := snd (read_elements E (elements_in s) (disk s)),
                           trace := trace s @ [Log ''Running analysis serially'',
                                               ReadElements (elements_in s)]\<rparr>)))))))
                  = Inl (ElementShouldRetryError m)) \<or>
               (\<exists>new. fst (analyse_element E element (user ((next_attempt E element ^^ i)
                  (set_dest_q (fst (read_query E (query element)) @ ''/'' @ stage_name s)
                     (state_of (analyse E before
                        (s\<lparr>user := snd (pre_analyse E (user s)),
                           disk := snd (read_elements E (elements_in s) (disk s)),
                           trace := trace s @ [Log ''Running analysis serially'',
                                               ReadElements (elements_in s)]\<rparr>)))))))
                    = Inr (Some new) \<and>
                  fst (write_element E (dest_q ((next_attempt E element ^^ i)
                  (set_dest_q (fst (read_query E (query element)) @ ''/'' @ stage_name s)
                     (state_of (analyse E before
                        (s\<lparr>user := snd (pre_analyse E (user s)),
                           disk := snd (read_elements E (elements_in s) (disk s)),
                           trace := trace s @ [Log ''Running analysis serially'',
                                               ReadElements (elements_in s)]\<rparr>)))))) new
                    (disk ((next_attempt E element ^^ i)
                  (set_dest_q (fst (read_query E (query element)) @ ''/'' @ stage_name s)
                     (state_of (analyse E before
                        (s\<lparr>user := snd (pre_analyse E (user s)),
                           disk := snd (read_elements E (elements_in s) (disk s)),
                           trace := trace s @ [Log ''Running analysis serially'',
                                               ReadElements (elements_in s)]\<rparr>))))))) = Inr False))
            \<longrightarrow> errored s')"
proof -
  let ?dest = "\<lambda>e. fst (read_query E (query e)) @ ''/'' @ stage_name s"
  let ?blk = "\<lambda>(e, b). SetDestQ (?dest e) # b"
  let ?meta = "if errored s' then []
       else [WriteMeta (concat (map (\<lambda>q. fst (read_query E q)) (elements_in s)) @ ''/'' @ stage_name s)
               (stage_name s)]"
  let ?sa = "s\<lparr>user := snd (pre_analyse E (user s)),
               disk := snd (read_elements E (elements_in s) (disk s)),
               trace := trace s @ [Log ''Running analysis serially'',
                                   ReadElements (elements_in s)]\<rparr>"
  from serial_run_trace [OF assms] obtain u els d s2 blocks pevs where
    pre: "pre_analyse E (user s) = (None, u)"
    and rd: "read_elements E (elements_in s) (disk s) = (Inr els, d)"
    and an: "analyse E els
             (s\<lparr>user := u, disk := d,
                trace := trace s @ [Log ''Running analysis serially'',
                                    ReadElements (elements_in s)]\<rparr>) = Returned s2"
    and e': "errored s' = errored s2"
    and ev: "\<forall>(e, b) \<in> set (zip els blocks). list_all (attempt_event e (?dest e)) b"
    and pev: "list_all (post_event (map (\<lambda>q. fst (read_query E q) @ ''/'' @ stage_name s)
                                   (elements_in s))) pevs"
    and tr: "trace s' = trace s @
             [Log ''Running analysis serially'', ReadElements (elements_in s)] @
             concat (map ?blk (zip els blocks)) @
             ReadElements [?dest (last els)] # pevs @ ?meta @ [FlushLogs]"
    by blast
  have an': "analyse E els ?sa = Returned s2" using an pre rd by simp
  define B where "B = concat (map ?blk (zip els blocks))"
  have m1: "meta_paths B = []"
    unfolding B_def by (rule blocks_projections(1) [where dest = "?dest", OF ev])
  have m2: "meta_paths pevs = []" using post_events_projections(1) [OF pev] .
  have tr': "trace s' = trace s @
      ([Log ''Running analysis serially'', ReadElements (elements_in s)] @ B @
       ReadElements [?dest (last els)] # pevs @ ?meta @ [FlushLogs])"
    using tr by (simp only: B_def)
  have "meta_paths ([Log ''Running analysis serially'', ReadElements (elements_in s)] @ B @
       ReadElements [?dest (last els)] # pevs @ ?meta @ [FlushLogs])
        = (if errored s' then [] else [get_selector E s @ ''/'' @ stage_name s])"
    by (simp add: meta_paths_append m1 m2 get_selector_concat)
  with tr' have first: "\<exists>evs. trace s' = trace s @ evs \<and>
            meta_paths evs = (if errored s' then [] else [get_selector E s @ ''/'' @ stage_name s])"
    by blast
  have second: "errored s'"
    if "fst (read_elements E (elements_in s) (disk s)) = Inr (before @ element # after)"
      and "\<forall>i<5.
               (\<exists>m. fst (analyse_element E element (user ((next_attempt E element ^^ i)
                  (set_dest_q (?dest element) (state_of (analyse E before ?sa))))))
                  = Inl (ElementShouldRetryError m)) \<or>
               (\<exists>new. fst (analyse_element E element (user ((next_attempt E element ^^ i)
                  (set_dest_q (?dest element) (state_of (analyse E before ?sa))))))
                    = Inr (Some new) \<and>
                  fst (write_element E (dest_q ((next_attempt E element ^^ i)
                  (set_dest_q (?dest element) (state_of (analyse E before ?sa))))) new
                    (disk ((next_attempt E element ^^ i)
                  (set_dest_q (?dest element) (state_of (analyse E before ?sa)))))) = Inr False)"
    for before element after
  proof -
    from that(1) rd have "els = before @ element # after" by simp
    with an' have a: "analyse E (before @ element # after) ?sa = Returned s2" by simp
    have nm: "stage_name ?sa = stage_name s" by simp
    from analyse_marks_errored [OF a] that(2) have "errored s2" by (simp only: nm)
    with e' show ?thesis by simp
  qed
  from first second show ?thesis by blast
qed

theorem metadata_unless_errored_witness:
  "\<not> in_parallel (demo_analyser [''selA''] False
        [(''selA'', el ''a'' []), (''selA'', el ''stubborn'' [])]) \<and>
   fst (analyse_element demo_env_stubborn (el ''stubborn'' ''selA'') 7)
     = Inr (Some (el ''stubborn'' ''selA'')) \<and>
   (\<exists>s'. start_analysing demo_env_stubborn (demo_analyser [''selA''] False
            [(''selA'', el ''a'' []), (''selA'', el ''stubborn'' [])]) = Returned s' \<and>
          errored s' \<and> meta_paths (trace s') = []) \<and>
   (\<exists>s'. start_analysing demo_env (demo_analyser [''selA''] False
            [(''selA'', el ''a'' []), (''selA'', el ''skip'' [])]) = Returned s' \<and>
          \<not> errored s' \<and> meta_paths (trace s') = [''selA/an''])"
proof -
  let ?s = "demo_analyser [''selA''] False [(''selA'', el ''a'' []), (''selA'', el ''stubborn'' [])]"
  let ?t = "demo_analyser [''selA''] False [(''selA'', el ''a'' []), (''selA'', el ''skip'' [])]"
  let ?E = "demo_env_stubborn"
  let ?e = "el ''stubborn'' ''selA''"
  let ?sa = "?s\<lparr>user := snd (pre_analyse ?E (user ?s)),
               disk := snd (read_elements ?E (elements_in ?s) (disk ?s)),
               trace := trace ?s @ [Log ''Running analysis serially'',
                                   ReadElements (elements_in ?s)]\<rparr>"
  let ?start = "set_dest_q (fst (read_query ?E (query ?e)) @ ''/'' @ stage_name ?s)
                  (state_of (analyse ?E [el ''a'' ''selA''] ?sa))"
  have h1: "\<not> in_parallel ?s" "\<not> in_parallel ?t" by (simp_all add: demo_defs)
  obtain s' where h2: "start_analysing ?E ?s = Returned s'"
    by (simp add: run_defs log_defs demo_defs)
  obtain t' where h3: "start_analysing demo_env ?t = Returned t'"
    by (simp add: run_defs log_defs demo_defs)
  have rd: "fst (read_elements ?E (elements_in ?s) (disk ?s))
              = Inr ([el ''a'' ''selA''] @ ?e # [])"
    by (simp add: demo_defs)
  have small: "i = 0 \<or> i = Suc 0 \<or> i = Suc (Suc 0) \<or> i = Suc (Suc (Suc 0)) \<or>
               i = Suc (Suc (Suc (Suc 0)))" if "i < 5" for i :: nat
    using that by arith
  have u: "user ((next_attempt ?E ?e ^^ i) ?start) = Suc i"
    "dest_q ((next_attempt ?E ?e ^^ i) ?start) = ''selA/an''" if "i < 5" for i
    using small [OF that]
    by (auto simp: next_attempt_def attempt_body_def run_defs log_defs demo_defs)
  have fails: "\<forall>i<5.
      (\<exists>m. fst (analyse_element ?E ?e (user ((next_attempt ?E ?e ^^ i) ?start)))
              = Inl (ElementShouldRetryError m)) \<or>
      (\<exists>new. fst (analyse_element ?E ?e (user ((next_attempt ?E ?e ^^ i) ?start)))
                = Inr (Some new) \<and>
             fst (write_element ?E (dest_q ((next_attempt ?E ?e ^^ i) ?start)) new
                    (disk ((next_attempt ?E ?e ^^ i) ?start))) = Inr False)"
  proof (intro allI impI)
    fix i :: nat assume i: "i < 5"
    have "fst (analyse_element ?E ?e (user ((next_attempt ?E ?e ^^ i) ?start)))
              = Inl (ElementShouldRetryError ''busy'')"
      using i unfolding u(1) [OF i] by (simp add: demo_defs)
    then show "(\<exists>m. fst (analyse_element ?E ?e (user ((next_attempt ?E ?e ^^ i) ?start)))
              = Inl (ElementShouldRetryError m)) \<or>
      (\<exists>new. fst (analyse_element ?E ?e (user ((next_attempt ?E ?e ^^ i) ?start)))
                = Inr (Some new) \<and>
             fst (write_element ?E (dest_q ((next_attempt ?E ?e ^^ i) ?start)) new
                    (disk ((next_attempt ?E ?e ^^ i) ?start))) = Inr False)"
      by blast
  qed
  note a = metadata_unless_errored [OF h1(1) h2]
  from a rd fails have e: "errored s'" by blast
  from a e have m: "meta_paths (trace s') = []" by (auto simp: demo_defs)
  have ne: "\<not> errored t'" using h3 by (auto simp: run_defs log_defs demo_defs)
  have sel: "get_selector demo_env ?t @ ''/'' @ stage_name ?t = ''selA/an''"
    by (simp add: get_selector_def demo_defs)
  from metadata_unless_errored [OF h1(2) h3] ne sel
  have mt: "meta_paths (trace t') = [''selA/an'']" by (auto simp: demo_defs)
  have ok: "fst (analyse_element ?E ?e 7) = Inr (Some ?e)" by (simp add: demo_defs)
  from h1(1) ok h2 e m h3 ne mt show ?thesis by blast
qed

text \<open>
  The claim as it stands fails on a run over two elements of which the first is stored
  and the second exhausts its retries: the run completes, one output element was
  written, and there is no metadata record.
\<close>

theorem partial_success_metadata_counterexample:
  "returned (start_analysing demo_env (demo_analyser [''selA''] False
      [(''selA'', el ''a'' []), (''selA'', el ''retry'' [])])) \<and>
   errored (state_of (start_analysing demo_env (demo_analyser [''selA''] False
      [(''selA'', el ''a'' []), (''selA'', el ''retry'' [])]))) \<and>
   filter persists (trace (state_of (start_analysing demo_env (demo_analyser [''selA''] False
      [(''selA'', el ''a'' []), (''selA'', el ''retry'' [])])))) =
     [WriteElement (Some (el ''a'' ''selA'')) ''selA/an'' (el ''a'' ''selA'') True (Inr True)] \<and>
   meta_paths (trace (state_of (start_analysing demo_env (demo_analyser [''selA''] False
      [(''selA'', el ''a'' []), (''selA'', el ''retry'' [])])))) = []"
  by (simp add: run_defs log_defs demo_defs)

subsection \<open>Where the outputs go\<close>

text \<open>One of at least two non-empty strings is shorter than all of them put together.\<close>

lemma concat_longer:
  assumes "x \<in> set xs" and "1 < length xs" and "\<forall>y \<in> set xs. y \<noteq> []"
  shows "length x < length (concat xs)"
proof -
  from assms(1) obtain ys zs where xs: "xs = ys @ x # zs" by (auto dest: split_list)
  with assms(2) have "ys \<noteq> [] \<or> zs \<noteq> []" by auto
  then have "concat ys \<noteq> [] \<or> concat zs \<noteq> []"
  proof
    assume "ys \<noteq> []"
    then obtain y where "y \<in> set ys" by (cases ys) auto
    with assms(3) xs have "y \<in> set ys \<and> y \<noteq> []" by auto
    then show ?thesis by auto
  next
    assume "zs \<noteq> []"
    then obtain z where "z \<in> set zs" by (cases zs) auto
    with assms(3) xs have "z \<in> set zs \<and> z \<noteq> []" by auto
    then show ?thesis by auto
  qed
  then have "0 < length (concat ys) + length (concat zs)" by auto
  with xs show ?thesis by simp
qed

lemma selector_path_differs:
  assumes "sel \<in> set sels" and "1 < length sels" and "\<forall>y \<in> set sels. y \<noteq> []"
  shows "concat sels @ ''/'' @ nm \<noteq> sel @ ''/'' @ nm"
proof
  assume "concat sels @ ''/'' @ nm = sel @ ''/'' @ nm"
  then have "concat sels = sel" by simp
  with concat_longer [OF assms] show False by simp
qed

text \<open>
  C10, as the code has it, for a serial run that completes. Its trace is: the first log
  line and the read of the input queries; the events \<open>mevs\<close> of the main phase, in
  which every write is made for an input element under that element's own
  \<open>selector/name\<close>; the read of the post phase, which does not use the metadata path but
  the current \<open>dest_q\<close>, the \<open>selector/name\<close> of the last element of the batch; the events
  \<open>pevs\<close> of the post phase, which are no events at all when the hook produced no
  aggregate element, and otherwise one write of the aggregate element under the
  \<open>selector/name\<close> of every input query, in their order, each returning true; the
  metadata record, if the run is not \<open>errored\<close>, under the selector names of all input
  queries put together with no separator, followed by \<open>/\<close> and the stage name; the
  flushing of the logs. With more than one input query, all with a non-empty selector
  name, the metadata path differs from the path of every element whose selector is the
  selector of an input query.
\<close>

theorem output_paths:
  assumes "\<not> in_parallel s" and "start_analysing E s = Returned s'"
  shows "\<exists>els s2 analysed agg mevs pevs.
           fst (read_elements E (elements_in s) (disk s)) = Inr els \<and> els \<noteq> [] \<and>
           analyse E els
             (s\<lparr>user := snd (pre_analyse E (user s)),
                disk := snd (read_elements E (elements_in s) (disk s)),
                trace := trace s @ [Log ''Running analysis serially'',
                                    ReadElements (elements_in s)]\<rparr>) = Returned s2 \<and>
           fst (read_elements E [fst (read_query E (query (last els))) @ ''/'' @ stage_name s]
                  (disk s2)) = Inr analysed \<and>
           fst (post_analyse E analysed (user s2)) = Inr agg \<and>
           trace s' = trace s @
             [Log ''Running analysis serially'', ReadElements (elements_in s)] @ mevs @
             ReadElements [fst (read_query E (query (last els))) @ ''/'' @ stage_name s] # pevs @
             (if errored s' then []
              else [WriteMeta (concat (map (\<lambda>q. fst (read_query E q)) (elements_in s)) @ ''/'' @ stage_name s)
                      (stage_name s)]) @
             [FlushLogs] \<and>
           meta_paths mevs = [] \<and> read_queries mevs = [] \<and>
           list_all (\<lambda>w. \<exists>e \<in> set els. w = (Some e, fst (read_query E (query e)) @ ''/'' @ stage_name s))
             (write_dests mevs) \<and>
           list_all (post_event (map (\<lambda>q. fst (read_query E q) @ ''/'' @ stage_name s)
                                   (elements_in s))) pevs \<and>
           write_calls pevs =
             (case agg of None \<Rightarrow> []
              | Some outel \<Rightarrow>
                  map (\<lambda>q. (None, fst (read_query E q) @ ''/'' @ stage_name s, outel, Inr True))
                    (elements_in s)) \<and>
           (1 < length (elements_in s) \<and> (\<forall>q \<in> set (elements_in s). fst (read_query E q) \<noteq> []) \<longrightarrow>
            (\<forall>e \<in> set els.
               fst (read_query E (query e)) \<in> set (map (\<lambda>q. fst (read_query E q)) (elements_in s)) \<longrightarrow>
               concat (map (\<lambda>q. fst (read_query E q)) (elements_in s)) @ ''/'' @ stage_name s
                 \<noteq> fst (read_query E (query e)) @ ''/'' @ stage_name s))"
proof -
  let ?dest = "\<lambda>e. fst (read_query E (query e)) @ ''/'' @ stage_name s"
  let ?blk = "\<lambda>(e, b). SetDestQ (?dest e) # b"
  let ?sels = "map (\<lambda>q. fst (read_query E q)) (elements_in s)"
  let ?pdests = "map (\<lambda>q. fst (read_query E q) @ ''/'' @ stage_name s) (elements_in s)"
  let ?meta = "if errored s' then [] else [WriteMeta (concat ?sels @ ''/'' @ stage_name s) (stage_name s)]"
  from serial_run_trace [OF assms] obtain u els d s2 blocks analysed agg pevs where
    pre: "pre_analyse E (user s) = (None, u)"
    and rd: "read_elements E (elements_in s) (disk s) = (Inr els, d)" "els \<noteq> []"
    and an: "analyse E els
             (s\<lparr>user := u, disk := d,
                trace := trace s @ [Log ''Running analysis serially'',
                                    ReadElements (elements_in s)]\<rparr>) = Returned s2"
    and ev: "\<forall>(e, b) \<in> set (zip els blocks). list_all (attempt_event e (?dest e)) b"
    and rd3: "fst (read_elements E [?dest (last els)] (disk s2)) = Inr analysed"
    and pa3: "fst (post_analyse E analysed (user s2)) = Inr agg"
    and pev: "list_all (post_event ?pdests) pevs"
    and wc: "write_calls pevs =
             (case agg of None \<Rightarrow> []
              | Some outel \<Rightarrow>
                  map (\<lambda>q. (None, fst (read_query E q) @ ''/'' @ stage_name s, outel, Inr True))
                    (elements_in s))"
    and tr: "trace s' = trace s @
             [Log ''Running analysis serially'', ReadElements (elements_in s)] @
             concat (map ?blk (zip els blocks)) @
             ReadElements [?dest (last els)] # pevs @ ?meta @ [FlushLogs]"
    by blast
  define B where "B = concat (map ?blk (zip els blocks))"
  have b: "meta_paths B = []" "read_queries B = []"
    "list_all (\<lambda>w. \<exists>e \<in> set els. w = (Some e, ?dest e)) (write_dests B)"
    unfolding B_def
    by (rule blocks_projections [where dest = "?dest", OF ev])+
  have tr': "trace s' = trace s @
      [Log ''Running analysis serially'', ReadElements (elements_in s)] @ B @
       ReadElements [?dest (last els)] # pevs @ ?meta @ [FlushLogs]"
    using tr by (simp only: B_def)
  have an': "analyse E els
             (s\<lparr>user := snd (pre_analyse E (user s)),
                disk := snd (read_elements E (elements_in s) (disk s)),
                trace := trace s @ [Log ''Running analysis serially'',
                                    ReadElements (elements_in s)]\<rparr>) = Returned s2"
    using an pre rd by simp
  have diff: "concat ?sels @ ''/'' @ stage_name s \<noteq> ?dest e"
    if "1 < length (elements_in s)" "\<forall>q \<in> set (elements_in s). fst (read_query E q) \<noteq> []"
      "fst (read_query E (query e)) \<in> set ?sels" for e
  proof -
    have "1 < length ?sels" using that(1) by simp
    moreover have "\<forall>y \<in> set ?sels. y \<noteq> []" using that(2) by auto
    ultimately show ?thesis using selector_path_differs [OF that(3)] by blast
  qed
  have "fst (read_elements E (elements_in s) (disk s)) = Inr els" using rd by simp
  with rd(2) an' rd3 pa3 tr' b pev wc diff show ?thesis by blast
qed

theorem output_paths_witness:
  "\<not> in_parallel (demo_analyser [''selA'', ''selB''] False
        [(''selA'', el ''a'' []), (''selB'', el ''b'' [])]) \<and>
   1 < length (elements_in (demo_analyser [''selA'', ''selB''] False
        [(''selA'', el ''a'' []), (''selB'', el ''b'' [])])) \<and>
   fst (read_query demo_env_aggregate ''selA'') \<noteq> [] \<and>
   fst (read_query demo_env_aggregate ''selB'') \<noteq> [] \<and>
   (\<exists>s' front pevs back.
      start_analysing demo_env_aggregate (demo_analyser [''selA'', ''selB''] False
            [(''selA'', el ''a'' []), (''selB'', el ''b'' [])]) = Returned s' \<and>
      trace s' = front @ ReadElements [''selB/an''] # pevs @ back \<and>
      list_all (post_event [''selA/an'', ''selB/an'']) pevs \<and>
      write_calls pevs = [(None, ''selA/an'', el ''all'' [], Inr True),
                          (None, ''selB/an'', el ''all'' [], Inr True)] \<and>
      back = [WriteMeta ''selAselB/an'' ''an'', FlushLogs] \<and>
      meta_paths (trace s') = [''selAselB/an''] \<and>
      read_queries (trace s') = [[''selA'', ''selB''], [''selB/an'']] \<and>
      write_calls (trace s') =
        [(Some (el ''a'' ''selA''), ''selA/an'', el ''a'' ''selA'', Inr True),
         (Some (el ''b'' ''selB''), ''selB/an'', el ''b'' ''selB'', Inr True),
         (None, ''selA/an'', el ''all'' [], Inr True),
         (None, ''selB/an'', el ''all'' [], Inr True)])"
proof -
  let ?s = "demo_analyser [''selA'', ''selB''] False [(''selA'', el ''a'' []), (''selB'', el ''b'' [])]"
  let ?E = "demo_env_aggregate"
  have h1: "\<not> in_parallel ?s" by (simp add: demo_defs)
  have h3: "1 < length (elements_in ?s)" by (simp add: demo_defs)
  have h4: "fst (read_query ?E ''selA'') \<noteq> []" "fst (read_query ?E ''selB'') \<noteq> []"
    by (simp_all add: demo_defs)
  obtain s' where h2: "start_analysing ?E ?s = Returned s'"
    by (simp add: run_defs log_defs demo_defs)
  have direct: "\<not> errored s'" "meta_paths (trace s') = [''selAselB/an'']"
    "read_queries (trace s') = [[''selA'', ''selB''], [''selB/an'']]"
    "write_calls (trace s') =
        [(Some (el ''a'' ''selA''), ''selA/an'', el ''a'' ''selA'', Inr True),
         (Some (el ''b'' ''selB''), ''selB/an'', el ''b'' ''selB'', Inr True),
         (None, ''selA/an'', el ''all'' [], Inr True),
         (None, ''selB/an'', el ''all'' [], Inr True)]"
    using h2 by (auto simp: run_defs log_defs demo_defs get_selector_def)
  have rd: "fst (read_elements ?E (elements_in ?s) (disk ?s))
              = Inr [el ''a'' ''selA'', el ''b'' ''selB'']"
    by (simp add: demo_defs)
  from output_paths [OF h1 h2] obtain els analysed agg mevs pevs
    and s2 :: "(nat, (string \<times> LocalElement) list) Analyser" where
    rd': "fst (read_elements ?E (elements_in ?s) (disk ?s)) = Inr els"
    and pa: "fst (post_analyse ?E analysed (user s2)) = Inr agg"
    and tr: "trace s' = trace ?s @
             [Log ''Running analysis serially'', ReadElements (elements_in ?s)] @ mevs @
             ReadElements [fst (read_query ?E (query (last els))) @ ''/'' @ stage_name ?s] # pevs @
             (if errored s' then []
              else [WriteMeta (concat (map (\<lambda>q. fst (read_query ?E q)) (elements_in ?s)) @ ''/'' @ stage_name ?s)
                      (stage_name ?s)]) @
             [FlushLogs]"
    and pev: "list_all (post_event (map (\<lambda>q. fst (read_query ?E q) @ ''/'' @ stage_name ?s)
                                   (elements_in ?s))) pevs"
    and wc: "write_calls pevs =
             (case agg of None \<Rightarrow> []
              | Some outel \<Rightarrow>
                  map (\<lambda>q. (None, fst (read_query ?E q) @ ''/'' @ stage_name ?s, outel, Inr True))
                    (elements_in ?s))"
    by blast
  have els: "els = [el ''a'' ''selA'', el ''b'' ''selB'']" using rd rd' by simp
  have agg: "agg = Some (el ''all'' [])" using pa by (simp add: demo_defs)
  have pd: "map (\<lambda>q. fst (read_query ?E q) @ ''/'' @ stage_name ?s) (elements_in ?s)
              = [''selA/an'', ''selB/an'']"
    by (simp add: demo_defs)
  have pev': "list_all (post_event [''selA/an'', ''selB/an'']) pevs" using pev by (simp only: pd)
  have wc': "write_calls pevs = [(None, ''selA/an'', el ''all'' [], Inr True),
                          (None, ''selB/an'', el ''all'' [], Inr True)]"
    using wc unfolding agg by (simp add: demo_defs)
  have tr': "trace s' =
      ([Log ''Running analysis serially'', ReadElements [''selA'', ''selB'']] @ mevs) @
      ReadElements [''selB/an''] # pevs @ [WriteMeta ''selAselB/an'' ''an'', FlushLogs]"
    using tr direct(1) unfolding els by (simp add: demo_defs)
  from h1 h3 h4 h2 tr' pev' wc' direct(2,3,4) show ?thesis by blast
qed

text \<open>
  The claim as it stands fails in two places. With the input queries \<open>selA\<close> and \<open>selB\<close>
  the post phase reads under \<open>selB/an\<close>, the destination of the last element, and not
  under \<open>selAselB/an\<close>, where the metadata record goes. With the input queries \<open>selA\<close> and
  the empty query, whose selector name is empty, the metadata record goes under
  \<open>selA/an\<close>, which is where the element was written.
\<close>

theorem output_paths_counterexample:
  "read_queries (trace (state_of (start_analysing demo_env
      (demo_analyser [''selA'', ''selB''] False [(''selA'', el ''a'' []), (''selB'', el ''b'' [])]))))
     = [[''selA'', ''selB''], [''selB/an'']] \<and>
   meta_paths (trace (state_of (start_analysing demo_env
      (demo_analyser [''selA'', ''selB''] False [(''selA'', el ''a'' []), (''selB'', el ''b'' [])]))))
     = [''selAselB/an''] \<and>
   meta_paths (trace (state_of (start_analysing demo_env
      (demo_analyser [''selA'', []] False [(''selA'', el ''a'' [])]))))
     = [''selA/an''] \<and>
   write_dests (trace (state_of (start_analysing demo_env
      (demo_analyser [''selA'', []] False [(''selA'', el ''a'' [])]))))
     = [(Some (el ''a'' ''selA''), ''selA/an'')]"
  by (simp add: run_defs log_defs demo_defs get_selector_def)

end
